theory Spec2Isabelle
  imports Complex_Main
begin

section \<open>Location algebra\<close>

text \<open>
  The upstream parser attaches a \<open>locationData\<close> object to every node: zero-based
  line and column of the first and of the last character (the end is inclusive).
\<close>

record location =
  first_line :: int
  first_column :: int
  last_line :: int
  last_column :: int

text \<open>
  \<open>mergeLocations(left, right)\<close> on two location objects. The four result fields are
  chosen by the two if-chains of the source, in the source's order.
\<close>

definition mergeLocations :: "location \<Rightarrow> location \<Rightarrow> location" where
  "mergeLocations left right =
     (let (fl, fc) =
            (if first_line left < first_line right then (first_line left, first_column left)
             else if first_line left > first_line right then (first_line right, first_column right)
             else if first_column left < first_column right then (first_line left, first_column left)
             else (first_line right, first_column right));
          (ll, lc) =
            (if last_line left < last_line right then (last_line right, last_column right)
             else if last_line left > last_line right then (last_line left, last_column left)
             else if last_column left < last_column right then (last_line right, last_column right)
             else (last_line left, last_column left))
      in \<lparr> first_line = fl, first_column = fc, last_line = ll, last_column = lc \<rparr>)"

section \<open>Scalar values\<close>

text \<open>
  The scalars an attribute of a produced node can hold: what \<open>JSON.parse\<close> makes of the
  text of a literal, and strings. A number is the rational it denotes, or \<open>Infinity\<close>,
  which \<open>JSON.parse\<close> answers for a literal beyond the range of a double.
\<close>

datatype jsval = JNumber rat | JInfinity | JString string | JBoolean bool | JNull

section \<open>Strings\<close>

text \<open>
  JavaScript's \<open>String.prototype.slice\<close>, \<open>indexOf\<close> and \<open>lastIndexOf\<close> on a string
  taken as its list of code units. A negative index of \<open>slice\<close> counts from the end; both
  searches clamp their start position into \<open>[0, length]\<close> and answer \<open>-1\<close> when nothing
  is found.
\<close>

definition slice :: "string \<Rightarrow> int \<Rightarrow> int \<Rightarrow> string" where
  "slice s a b =
     (let len = int (length s);
          lo = (if a < 0 then max (len + a) 0 else min a len);
          hi = (if b < 0 then max (len + b) 0 else min b len)
      in take (nat (hi - lo)) (drop (nat lo) s))"

definition occurs_at :: "string \<Rightarrow> string \<Rightarrow> nat \<Rightarrow> bool" where
  "occurs_at s a k = (k + length a \<le> length s \<and> take (length a) (drop k s) = a)"

definition indexOf :: "string \<Rightarrow> string \<Rightarrow> int \<Rightarrow> int" where
  "indexOf s a pos =
     (let start = nat (min (max pos 0) (int (length s)))
      in case find (occurs_at s a) [start ..< Suc (length s)] of
           None \<Rightarrow> - 1
         | Some k \<Rightarrow> int k)"

definition lastIndexOf :: "string \<Rightarrow> string \<Rightarrow> int \<Rightarrow> int" where
  "lastIndexOf s a pos =
     (let start = nat (min (max pos 0) (int (length s)))
      in case find (occurs_at s a) (rev [0 ..< Suc start]) of
           None \<Rightarrow> - 1
         | Some k \<Rightarrow> int k)"

section \<open>The upstream parse tree\<close>

text \<open>
  The nodes of the upstream parser are objects told apart by the name of their class
  (\<open>type(node) = node.constructor.name\<close>). Each constructor below is one class and
  carries the fields the converter reads from it, in the order given beside it; a field
  that may be absent is an option. \<open>locationData\<close> is a reference to a location object
  (or \<open>null\<close>): the converter compares two of them with \<open>===\<close>, which is identity of
  objects, so the model keeps the address and reads the object from a store.
  The name of an \<open>Access\<close> is a literal, of which the converter reads the text
  (\<open>prop.name.value\<close>). A class the converter has no case for is \<open>CsOther\<close> with its name,
  which is none of the names of the other constructors.
  A switch case is the pair \<open>[conditions, body]\<close>, where \<open>conditions\<close> is one node or an
  array of nodes.
  The parse tree is a tree: no node occurs twice in it, only location objects are shared.
\<close>

datatype cs_node =
    CsBlock (locationData: "nat option") "cs_node list"
      \<comment> \<open>expressions\<close>
  | CsValue (locationData: "nat option") cs_node "cs_node list"
      \<comment> \<open>base, properties\<close>
  | CsLiteral (locationData: "nat option") string
      \<comment> \<open>value\<close>
  | CsCall (locationData: "nat option") cs_node "cs_node list"
      \<comment> \<open>variable, args\<close>
  | CsOp (locationData: "nat option") string cs_node "cs_node option"
      \<comment> \<open>operator, first, second\<close>
  | CsAssign (locationData: "nat option") "string option" cs_node cs_node
      \<comment> \<open>context, variable, value\<close>
  | CsObj (locationData: "nat option") "cs_node list"
      \<comment> \<open>properties\<close>
  | CsArr (locationData: "nat option") "cs_node list"
      \<comment> \<open>objects\<close>
  | CsParens (locationData: "nat option") cs_node
      \<comment> \<open>body\<close>
  | CsIf (locationData: "nat option") cs_node cs_node "cs_node option"
      \<comment> \<open>condition, body, elseBody\<close>
  | CsCode (locationData: "nat option") bool "cs_node option" "cs_node list"
      \<comment> \<open>bound, body, params\<close>
  | CsParam (locationData: "nat option") cs_node "cs_node option"
      \<comment> \<open>name, value\<close>
  | CsBool (locationData: "nat option") string
      \<comment> \<open>val\<close>
  | CsNull (locationData: "nat option")
  | CsWhile (locationData: "nat option") cs_node cs_node
      \<comment> \<open>condition, body\<close>
  | CsClass (locationData: "nat option") "cs_node option" "cs_node option" "cs_node option"
      \<comment> \<open>variable, body, parent\<close>
  | CsSwitch (locationData: "nat option") "cs_node option" "cs_case list" "cs_node option"
      \<comment> \<open>subject, cases, otherwise\<close>
  | CsAccess (locationData: "nat option") string
      \<comment> \<open>name.value\<close>
  | CsIndex (locationData: "nat option") cs_node
      \<comment> \<open>index\<close>
  | CsOther (locationData: "nat option") string
      \<comment> \<open>a node of any other class, with the name of the class\<close>
and cs_case = CsCase cs_conditions cs_node
and cs_conditions = CsOne cs_node | CsMany "cs_node list"

fun type_of :: "cs_node \<Rightarrow> string" where
  "type_of (CsBlock _ _) = ''Block''"
| "type_of (CsValue _ _ _) = ''Value''"
| "type_of (CsLiteral _ _) = ''Literal''"
| "type_of (CsCall _ _ _) = ''Call''"
| "type_of (CsOp _ _ _ _) = ''Op''"
| "type_of (CsAssign _ _ _ _) = ''Assign''"
| "type_of (CsObj _ _) = ''Obj''"
| "type_of (CsArr _ _) = ''Arr''"
| "type_of (CsParens _ _) = ''Parens''"
| "type_of (CsIf _ _ _ _) = ''If''"
| "type_of (CsCode _ _ _ _) = ''Code''"
| "type_of (CsParam _ _ _) = ''Param''"
| "type_of (CsBool _ _) = ''Bool''"
| "type_of (CsNull _) = ''Null''"
| "type_of (CsWhile _ _ _) = ''While''"
| "type_of (CsClass _ _ _ _) = ''Class''"
| "type_of (CsSwitch _ _ _ _) = ''Switch''"
| "type_of (CsAccess _ _) = ''Access''"
| "type_of (CsIndex _ _) = ''Index''"
| "type_of (CsOther _ name) = name"

section \<open>Errors\<close>

text \<open>
  Every \<open>throw\<close> of the source and every exception of the runtime is a value. The two
  expansion errors carry what the message of the source prints: the one-based line and
  column that were searched from, and the anchor. The unknown-node errors carry the name
  of the class and the node itself (the source prints it with \<open>JSON.stringify\<close>).
\<close>

datatype error =
    TypeError
  | SyntaxError
  | UnknownNodeType string cs_node
  | UnknownPropertyType string cs_node
  | UnimplementedNodeType jsval
  | NotFollowedBy int int string
  | NotPrecededBy int int string

definition bindE :: "error + 'a \<Rightarrow> ('a \<Rightarrow> error + 'b) \<Rightarrow> error + 'b" where
  "bindE m f = (case m of Inl e \<Rightarrow> Inl e | Inr x \<Rightarrow> f x)"

fun mapE :: "('a \<Rightarrow> error + 'b) \<Rightarrow> 'a list \<Rightarrow> error + 'b list" where
  "mapE f [] = Inr []"
| "mapE f (x # xs) = bindE (f x) (\<lambda>y. bindE (mapE f xs) (\<lambda>ys. Inr (y # ys)))"

fun foldE :: "('b \<Rightarrow> 'a \<Rightarrow> error + 'b) \<Rightarrow> 'b \<Rightarrow> 'a list \<Rightarrow> error + 'b" where
  "foldE f acc [] = Inr acc"
| "foldE f acc (x # xs) = bindE (f acc x) (\<lambda>acc'. foldE f acc' xs)"

section \<open>The environment of a conversion\<close>

text \<open>
  \<open>convert\<close> and the functions nested in it close over the source text and the position
  mapper. The mapper (\<open>util/lineColumnMapper\<close>), the literal parser (\<open>util/parseLiteral\<close>)
  and \<open>JSON.parse\<close> are not part of the converter: they are parameters here. The mapper
  turns a zero-based line and column into an offset, and \<open>mapper.invert\<close> an offset into a
  line and a column. \<open>parseLiteral\<close> answers a string or something that is not a string
  (\<open>None\<close>); \<open>JSON_parse\<close> answers a value or throws a SyntaxError (\<open>None\<close>).
  \<open>locs\<close> is the store of location objects. \<open>unlocated\<close> holds for the address of a
  location object whose four coordinates are \<open>undefined\<close>: upstream gives such an object
  to the root of a source without expressions. The merges and the expansions read the
  coordinates of their operands from \<open>locs\<close>.
\<close>

record env =
  source :: string
  mapper :: "int \<Rightarrow> int \<Rightarrow> int"
  invert :: "int \<Rightarrow> int \<times> int"
  parseLiteral :: "string \<Rightarrow> string option"
  JSON_parse :: "string \<Rightarrow> jsval option"
  locs :: "nat \<Rightarrow> location"
  unlocated :: "nat \<Rightarrow> bool"

definition loc_of :: "env \<Rightarrow> cs_node \<Rightarrow> location option" where
  "loc_of e n = map_option (locs e) (locationData n)"

text \<open>
  \<open>mergeLocations\<close> called with arguments that may be \<open>null\<close>: reading a field of
  \<open>null\<close> raises a TypeError.
\<close>

fun mergeLocationsN :: "location option \<Rightarrow> location option \<Rightarrow> error + location" where
  "mergeLocationsN (Some left) (Some right) = Inr (mergeLocations left right)"
| "mergeLocationsN _ _ = Inl TypeError"

fun locationContainingNodes :: "env \<Rightarrow> cs_node list \<Rightarrow> error + location option" where
  "locationContainingNodes e [] = Inr None"
| "locationContainingNodes e [n0] = Inr (loc_of e n0)"
| "locationContainingNodes e [n0, n1] =
     bindE (mergeLocationsN (loc_of e n0) (loc_of e n1)) (\<lambda>m. Inr (Some m))"
| "locationContainingNodes e (n0 # rest) =
     bindE (locationContainingNodes e rest) (\<lambda>r.
     bindE (mergeLocationsN (loc_of e n0) r) (\<lambda>m. Inr (Some m)))"

fun expandLocationRightThrough :: "env \<Rightarrow> location option \<Rightarrow> string \<Rightarrow> error + location" where
  "expandLocationRightThrough e None str = Inl TypeError"
| "expandLocationRightThrough e (Some loc) str =
     (let offset = mapper e (last_line loc) (last_column loc) + 1;
          offset = indexOf (source e) str offset
      in if offset < 0 then Inl (NotFollowedBy (last_line loc + 1) (last_column loc + 1) str)
         else
           (let newLoc = invert e (offset + int (length str) - 1)
            in Inr \<lparr> first_line = first_line loc, first_column = first_column loc,
                      last_line = fst newLoc, last_column = snd newLoc \<rparr>))"

fun expandLocationLeftThrough :: "env \<Rightarrow> location option \<Rightarrow> string \<Rightarrow> error + location" where
  "expandLocationLeftThrough e None str = Inl TypeError"
| "expandLocationLeftThrough e (Some loc) str =
     (let offset = mapper e (first_line loc) (first_column loc);
          offset = lastIndexOf (source e) str offset
      in if offset < 0 then Inl (NotPrecededBy (first_line loc + 1) (first_column loc + 1) str)
         else
           (let newLoc = invert e offset
            in Inr \<lparr> first_line = fst newLoc, first_column = snd newLoc,
                      last_line = last_line loc, last_column = last_column loc \<rparr>))"

section \<open>Produced nodes and the node builder\<close>

text \<open>
  The numbers of a produced node: an integer, or \<open>NaN\<close>, which is what arithmetic on
  \<open>undefined\<close> gives. A comparison with \<open>NaN\<close> is false, and \<open>NaN\<close> as an index of
  \<open>slice\<close> counts as \<open>0\<close> (\<open>ToIntegerOrInfinity\<close>).
\<close>

datatype number = Number int | NaN

fun less_number :: "number \<Rightarrow> number \<Rightarrow> bool" where
  "less_number (Number a) (Number b) = (a < b)"
| "less_number _ _ = False"

fun toInteger :: "number \<Rightarrow> int" where
  "toInteger (Number a) = a"
| "toInteger NaN = 0"

text \<open>
  The location object handed to the node builder: one with four coordinates, or one whose
  coordinates are all \<open>undefined\<close>. \<open>locationObject\<close> is \<open>node.locationData\<close> as the builder
  receives it.
\<close>

datatype locobj = Located location | Unlocated

definition locationObject :: "env \<Rightarrow> cs_node \<Rightarrow> locobj option" where
  "locationObject e n =
     map_option (\<lambda>a. if unlocated e a then Unlocated else Located (locs e a)) (locationData n)"

text \<open>
  A produced node is an object with the keys \<open>type\<close>, \<open>line\<close>, \<open>column\<close>, \<open>range\<close>,
  \<open>virtual\<close> and \<open>raw\<close>, followed by its attributes in the order they were given. An
  attribute is a node or \<open>null\<close>, an array of nodes (an element is \<open>null\<close> where a child
  converted to \<open>null\<close>), or a scalar. A key that was never set is \<open>None\<close>;
  \<open>virtual\<close> is \<open>True\<close> exactly when the builder set it.
\<close>

datatype 'n attr = ANode "'n option" | ANodes "'n option list" | AData jsval

datatype node =
  Node (ntype: "string option") (line: "number option") (column: "number option")
       (nrange: "(number \<times> number) option") (virtual: bool) (raw: "string option")
       (attrs: "(string \<times> node attr) list")

text \<open>
  The inner \<open>forEach\<close> of \<open>makeNode\<close>: the range grows to contain the range of every
  element that has one. Reading \<open>range\<close> of a \<open>null\<close> element raises a TypeError.
\<close>

fun widen :: "number \<times> number \<Rightarrow> node option list \<Rightarrow> error + number \<times> number" where
  "widen r [] = Inr r"
| "widen r (None # ns) = Inl TypeError"
| "widen (s, e) (Some n # ns) =
     widen (case nrange n of
              None \<Rightarrow> (s, e)
            | Some (cs, ce) \<Rightarrow>
                (if less_number cs s then cs else s, if less_number e ce then ce else e)) ns"

text \<open>
  One round of the loop over the attributes, for a result that has a range: a falsy
  value is skipped, an array is visited element by element, anything else is visited as
  a one-element array (a scalar has no \<open>range\<close>).
\<close>

fun expandRange :: "number \<times> number \<Rightarrow> node attr \<Rightarrow> error + number \<times> number" where
  "expandRange r (ANode None) = Inr r"
| "expandRange r (ANode (Some n)) = widen r [Some n]"
| "expandRange r (ANodes ns) = widen r ns"
| "expandRange r (AData v) = Inr r"

text \<open>
  \<open>makeNode(type, loc, attrs)\<close>. With coordinates, \<open>start\<close> and \<open>end\<close> are the offsets the
  mapper gives and \<open>line\<close> and \<open>column\<close> are one-based; with \<open>undefined\<close> coordinates all
  four are \<open>NaN\<close> (the mapper adds the column to the offset of the line). Then the range
  is widened by the attributes, in their order, and clamped into the source.
\<close>

definition makeNode ::
  "env \<Rightarrow> string option \<Rightarrow> locobj option \<Rightarrow> (string \<times> node attr) list \<Rightarrow> error + node" where
  "makeNode e ty loc as =
     (case loc of
        None \<Rightarrow> Inr (Node ty None None None True None as)
      | Some l \<Rightarrow>
          (let start = (case l of
                          Located s \<Rightarrow> Number (mapper e (first_line s) (first_column s))
                        | Unlocated \<Rightarrow> NaN);
               fin = (case l of
                        Located s \<Rightarrow> Number (mapper e (last_line s) (last_column s) + 1)
                      | Unlocated \<Rightarrow> NaN);
               ln = (case l of Located s \<Rightarrow> Number (first_line s + 1) | Unlocated \<Rightarrow> NaN);
               col = (case l of Located s \<Rightarrow> Number (first_column s + 1) | Unlocated \<Rightarrow> NaN)
           in bindE (foldE expandRange (start, fin) (map snd as)) (\<lambda>(r0, r1).
                let len = Number (int (length (source e)));
                    r0 = (if less_number r0 (Number 0) then Number 0 else r0);
                    r1 = (if less_number len r1 then len else r1)
                in Inr (Node ty (Some ln) (Some col) (Some (r0, r1)) False
                          (Some (slice (source e) (toInteger r0) (toInteger r1))) as))))"

text \<open>A built node where the source returns it as the result of a conversion.\<close>

definition returnNode :: "error + node \<Rightarrow> error + node option" where
  "returnNode m = bindE m (\<lambda>n. Inr (Some n))"

section \<open>Literals\<close>

text \<open>
  The test \<open>/^\d+|(\d+)?\.\d+$/\<close> of the source: the text starts with a digit, or it
  ends with a dot followed by at least one digit.
\<close>

definition is_digit :: "char \<Rightarrow> bool" where
  "is_digit c = (c \<in> set ''0123456789'')"

definition looksNumeric :: "string \<Rightarrow> bool" where
  "looksNumeric v =
     ((case v of [] \<Rightarrow> False | c # _ \<Rightarrow> is_digit c) \<or>
      (takeWhile is_digit (rev v) \<noteq> [] \<and>
       (case dropWhile is_digit (rev v) of [] \<Rightarrow> False | c # _ \<Rightarrow> c = CHR ''.'')))"

fun nodeTypeForLiteral :: "jsval \<Rightarrow> error + string" where
  "nodeTypeForLiteral (JNumber q) = Inr (if of_int (floor q) = q then ''Int'' else ''Float'')"
| "nodeTypeForLiteral JInfinity = Inr ''Int''"
| "nodeTypeForLiteral v = Inl (UnimplementedNodeType v)"

section \<open>The tree converter\<close>

text \<open>
  Congruence rules for the error monad: a recursive call under \<open>bindE\<close>, \<open>mapE\<close> or
  \<open>foldE\<close> is only made on the values that reach it.
\<close>

lemma bindE_cong [fundef_cong]:
  "m = m' \<Longrightarrow> (\<And>x. m' = Inr x \<Longrightarrow> f x = g x) \<Longrightarrow> bindE m f = bindE m' g"
  by (simp add: bindE_def split: sum.splits)

lemma mapE_cong [fundef_cong]:
  "xs = ys \<Longrightarrow> (\<And>x. x \<in> set ys \<Longrightarrow> f x = g x) \<Longrightarrow> mapE f xs = mapE g ys"
  by (induction ys arbitrary: xs) (auto cong: bindE_cong)

lemma foldE_cong [fundef_cong]:
  "xs = ys \<Longrightarrow> a = b \<Longrightarrow> (\<And>acc x. x \<in> set ys \<Longrightarrow> f acc x = g acc x) \<Longrightarrow>
   foldE f a xs = foldE g b ys"
  by (induction ys arbitrary: xs a b) (auto cong: bindE_cong)

lemma size_list_member: "x \<in> set xs \<Longrightarrow> size x \<le> size_list size xs"
  by (induction xs) auto

text \<open>
  The two tests of the class body on a converted key: \<open>key.data === 'constructor'\<close>, and
  \<open>key.type === 'MemberAccessOp' && key.expression.type === 'This'\<close>, where reading
  \<open>type\<close> of \<open>null\<close> or \<open>undefined\<close> raises a TypeError.
\<close>

definition isConstructorKey :: "node \<Rightarrow> bool" where
  "isConstructorKey key = (map_of (attrs key) ''data'' = Some (AData (JString ''constructor'')))"

definition isThisMember :: "node \<Rightarrow> error + bool" where
  "isThisMember key =
     (if ntype key = Some ''MemberAccessOp'' then
        (case map_of (attrs key) ''expression'' of
           None \<Rightarrow> Inl TypeError
         | Some (ANode None) \<Rightarrow> Inl TypeError
         | Some (ANode (Some x)) \<Rightarrow> Inr (ntype x = Some ''This'')
         | Some (ANodes xs) \<Rightarrow> Inr False
         | Some (AData JNull) \<Rightarrow> Inl TypeError
         | Some (AData v) \<Rightarrow> Inr False)
      else Inr False)"

text \<open>
  \<open>convert(node, source, mapper, ancestors)\<close> with the functions nested in it. The source
  text and the mapper are in the environment; \<open>convertChild(child)\<close> is
  \<open>convert e child (ancestors @ [node])\<close>. With no ancestors the node is the root.
  Arguments are evaluated from left to right, so the first error is the one raised.
  In the case of \<open>If\<close> the source assigns \<open>null\<close> to the \<open>locationData\<close> of the
  condition before converting it; the model converts the condition so changed.
  \<open>convertCase\<close> is the function mapped over the cases of a \<open>Switch\<close>;
  \<open>classStatement\<close> and \<open>classProperty\<close> are the bodies of the \<open>reduce\<close> and of the
  inner \<open>forEach\<close> of \<open>Class\<close>, on the state \<open>(statements, ctor, boundMembers)\<close>.
\<close>

function
  convert :: "env \<Rightarrow> cs_node \<Rightarrow> cs_node list \<Rightarrow> error + node option"
and convertOperator :: "env \<Rightarrow> cs_node \<Rightarrow> cs_node list \<Rightarrow> error + node option"
and accessOpForProperty ::
  "env \<Rightarrow> cs_node \<Rightarrow> cs_node list \<Rightarrow> node option \<Rightarrow> cs_node \<Rightarrow> location option \<Rightarrow> error + node option"
and convertCase :: "env \<Rightarrow> cs_node \<Rightarrow> cs_node list \<Rightarrow> cs_case \<Rightarrow> error + node option"
and classStatement ::
  "env \<Rightarrow> cs_node \<Rightarrow> cs_node list \<Rightarrow> node option list \<times> node option \<times> node option list \<Rightarrow> cs_node \<Rightarrow>
   error + node option list \<times> node option \<times> node option list"
and classProperty ::
  "env \<Rightarrow> cs_node \<Rightarrow> cs_node list \<Rightarrow> node option list \<times> node option \<times> node option list \<Rightarrow> cs_node \<Rightarrow>
   error + node option list \<times> node option \<times> node option list"
where
  "convert e node [] =
     (case node of
        CsBlock l expressions \<Rightarrow>
          bindE (mapE (\<lambda>child. convert e child ([] @ [node])) expressions) (\<lambda>statements.
          bindE (makeNode e (Some ''Block'') (locationObject e node) [(''statements'', ANodes statements)]) (\<lambda>body.
          returnNode (makeNode e (Some ''Program'') (locationObject e node) [(''body'', ANode (Some body))])))
      | _ \<Rightarrow> Inl TypeError)"
| "convert e (CsValue l base properties) (a # as) =
     (let node = CsValue l base properties; ancestors = a # as
      in bindE (convert e base (ancestors @ [node])) (\<lambda>v.
           foldE (\<lambda>v prop. accessOpForProperty e node ancestors v prop (loc_of e base)) v properties))"
| "convert e (CsLiteral l v) (a # as) =
     (let node = CsLiteral l v
      in if looksNumeric v then
           (case JSON_parse e v of
              None \<Rightarrow> Inl SyntaxError
            | Some data \<Rightarrow>
                bindE (nodeTypeForLiteral data) (\<lambda>ty.
                returnNode (makeNode e (Some ty) (locationObject e node) [(''data'', AData data)])))
         else if v = ''this'' then returnNode (makeNode e (Some ''This'') (locationObject e node) [])
         else
           (case parseLiteral e v of
              Some data \<Rightarrow>
                returnNode (makeNode e (Some ''String'') (locationObject e node) [(''data'', AData (JString data))])
            | None \<Rightarrow>
                returnNode (makeNode e (Some ''Identifier'') (locationObject e node) [(''data'', AData (JString v))])))"
| "convert e (CsCall l variable args) (a # as) =
     (let node = CsCall l variable args; ancestors = a # as
      in bindE (convert e variable (ancestors @ [node])) (\<lambda>f.
         bindE (mapE (\<lambda>child. convert e child (ancestors @ [node])) args) (\<lambda>arguments.
         returnNode (makeNode e (Some ''FunctionApplication'') (locationObject e node)
           [(''function'', ANode f), (''arguments'', ANodes arguments)]))))"
| "convert e (CsOp l operator first second) (a # as) =
     convertOperator e (CsOp l operator first second) (a # as)"
| "convert e (CsAssign l ctx variable val) (a # as) =
     (let node = CsAssign l ctx variable val; ancestors = a # as
      in if ctx = Some ''object'' then
           bindE (convert e variable (ancestors @ [node])) (\<lambda>key.
           bindE (convert e val (ancestors @ [node])) (\<lambda>expression.
           returnNode (makeNode e (Some ''ObjectInitialiserMember'') (locationObject e node)
             [(''key'', ANode key), (''expression'', ANode expression)])))
         else
           bindE (convert e variable (ancestors @ [node])) (\<lambda>assignee.
           bindE (convert e val (ancestors @ [node])) (\<lambda>expression.
           returnNode (makeNode e (Some ''AssignOp'') (locationObject e node)
             [(''assignee'', ANode assignee), (''expression'', ANode expression)]))))"
| "convert e (CsObj l properties) (a # as) =
     (let node = CsObj l properties; ancestors = a # as
      in bindE (mapE (\<lambda>property.
                  if type_of property = ''Value'' then
                    bindE (convert e property (ancestors @ [node])) (\<lambda>keyValue.
                    returnNode (makeNode e (Some ''ObjectInitialiserMember'') (locationObject e property)
                      [(''key'', ANode keyValue), (''expression'', ANode keyValue)]))
                  else convert e property (ancestors @ [node])) properties) (\<lambda>members.
         returnNode (makeNode e (Some ''ObjectInitialiser'') (locationObject e node) [(''members'', ANodes members)])))"
| "convert e (CsArr l objects) (a # as) =
     (let node = CsArr l objects; ancestors = a # as
      in bindE (mapE (\<lambda>child. convert e child (ancestors @ [node])) objects) (\<lambda>members.
         returnNode (makeNode e (Some ''ArrayInitialiser'') (locationObject e node) [(''members'', ANodes members)])))"
| "convert e (CsParens l body) (a # as) =
     (let node = CsParens l body; ancestors = a # as
      in case body of
           CsBlock bl (first # rest) \<Rightarrow> convert e first (ancestors @ [node])
         | _ \<Rightarrow> Inl TypeError)"
| "convert e (CsIf l condition body elseBody) (a # as) =
     (let ancestors = a # as;
          condition =
            (case condition of
               CsOp cl operator first second \<Rightarrow>
                 if operator = ''!'' \<and> l = cl then CsOp None operator first second else condition
             | _ \<Rightarrow> condition);
          node = CsIf l condition body elseBody
      in bindE (convert e condition (ancestors @ [node])) (\<lambda>c.
         bindE (convert e body (ancestors @ [node])) (\<lambda>consequent.
         bindE (case elseBody of
                  Some eb \<Rightarrow> convert e eb (ancestors @ [node])
                | None \<Rightarrow> Inr None) (\<lambda>alternate.
         returnNode (makeNode e (Some ''Conditional'') (locationObject e node)
           [(''condition'', ANode c), (''consequent'', ANode consequent),
            (''alternate'', ANode alternate)])))))"
| "convert e (CsCode l bound body params) (a # as) =
     (let node = CsCode l bound body params; ancestors = a # as
      in bindE (case body of
                  Some b \<Rightarrow> convert e b (ancestors @ [node])
                | None \<Rightarrow> Inr None) (\<lambda>body'.
         bindE (mapE (\<lambda>child. convert e child (ancestors @ [node])) params) (\<lambda>parameters.
         returnNode (makeNode e (Some (if bound then ''BoundFunction'' else ''Function'')) (locationObject e node)
           [(''body'', ANode body'), (''parameters'', ANodes parameters)]))))"
| "convert e (CsParam l name val) (a # as) =
     (let node = CsParam l name val; ancestors = a # as
      in bindE (convert e name (ancestors @ [node])) (\<lambda>param.
         case val of
           Some v \<Rightarrow>
             bindE (convert e v (ancestors @ [node])) (\<lambda>d.
             returnNode (makeNode e (Some ''DefaultParam'') (locationObject e node)
               [(''default'', ANode d), (''param'', ANode param)]))
         | None \<Rightarrow> Inr param))"
| "convert e (CsBlock l expressions) (a # as) =
     (let node = CsBlock l expressions; ancestors = a # as
      in if length expressions = 0 then Inr None
         else
           bindE (mapE (\<lambda>child. convert e child (ancestors @ [node])) expressions) (\<lambda>statements.
           returnNode (makeNode e (Some ''Block'') (locationObject e node) [(''statements'', ANodes statements)])))"
| "convert e (CsBool l val) (a # as) =
     (case JSON_parse e val of
        None \<Rightarrow> Inl SyntaxError
      | Some data \<Rightarrow>
          returnNode (makeNode e (Some ''Bool'') (locationObject e (CsBool l val)) [(''data'', AData data)]))"
| "convert e (CsNull l) (a # as) =
     returnNode (makeNode e (Some ''Null'') (locationObject e (CsNull l)) [])"
| "convert e (CsWhile l condition body) (a # as) =
     (let node = CsWhile l condition body; ancestors = a # as
      in bindE (locationContainingNodes e [node, condition, body]) (\<lambda>loc.
         bindE (convert e condition (ancestors @ [node])) (\<lambda>c.
         bindE (convert e body (ancestors @ [node])) (\<lambda>b.
         returnNode (makeNode e (Some ''While'') (map_option Located loc)
           [(''condition'', ANode c), (''body'', ANode b)])))))"
| "convert e (CsClass l variable body parent) (a # as) =
     (let node = CsClass l variable body parent; ancestors = a # as
      in bindE (case variable of
                  Some v \<Rightarrow> convert e v (ancestors @ [node])
                | None \<Rightarrow> Inr None) (\<lambda>nameNode.
         bindE (case body of
                  None \<Rightarrow> Inr (None, None, [])
                | Some b \<Rightarrow>
                    (case b of
                       CsBlock bl expressions \<Rightarrow>
                         if length expressions = 0 then Inr (None, None, [])
                         else
                           bindE (foldE (classStatement e node ancestors) ([], None, []) expressions)
                             (\<lambda>(statements, ctor, boundMembers).
                           bindE (makeNode e (Some ''Block'') (locationObject e b)
                                    [(''statements'', ANodes statements)]) (\<lambda>blk.
                           Inr (Some blk, ctor, boundMembers)))
                     | _ \<Rightarrow> Inl TypeError)) (\<lambda>(body', ctor, boundMembers).
         bindE (case parent of
                  Some p \<Rightarrow> convert e p (ancestors @ [node])
                | None \<Rightarrow> Inr None) (\<lambda>parent'.
         returnNode (makeNode e (Some ''Class'') (locationObject e node)
           [(''name'', ANode nameNode), (''nameAssignee'', ANode nameNode), (''body'', ANode body'),
            (''boundMembers'', ANodes boundMembers), (''parent'', ANode parent'),
            (''ctor'', ANode ctor)])))))"
| "convert e (CsSwitch l subject cases otherwise) (a # as) =
     (let node = CsSwitch l subject cases otherwise; ancestors = a # as
      in bindE (case subject of
                  Some s \<Rightarrow> convert e s (ancestors @ [node])
                | None \<Rightarrow> Inl TypeError) (\<lambda>expression.
         bindE (mapE (convertCase e node ancestors) cases) (\<lambda>cases'.
         bindE (case otherwise of
                  Some ow \<Rightarrow> convert e ow (ancestors @ [node])
                | None \<Rightarrow> Inr None) (\<lambda>alternate.
         returnNode (makeNode e (Some ''Switch'') (locationObject e node)
           [(''expression'', ANode expression), (''cases'', ANodes cases'),
            (''alternate'', ANode alternate)])))))"
| "convert e (CsAccess l name) (a # as) =
     Inl (UnknownNodeType (type_of (CsAccess l name)) (CsAccess l name))"
| "convert e (CsIndex l index) (a # as) =
     Inl (UnknownNodeType (type_of (CsIndex l index)) (CsIndex l index))"
| "convert e (CsOther l name) (a # as) =
     Inl (UnknownNodeType (type_of (CsOther l name)) (CsOther l name))"
| "convertOperator e op ancestors =
     (case op of
        CsOp l operator first second \<Rightarrow>
         (case second of
           Some sec \<Rightarrow>
             (let nodeType =
                    (if operator = ''+'' then Some ''PlusOp''
                     else if operator = ''-'' then Some ''SubtractOp''
                     else if operator = ''*'' then Some ''MultiplyOp''
                     else if operator = ''/'' then Some ''DivideOp''
                     else if operator = ''%'' then Some ''RemOp''
                     else None)
              in bindE (convert e first (ancestors @ [op])) (\<lambda>left.
                 bindE (convert e sec (ancestors @ [op])) (\<lambda>right.
                 returnNode (makeNode e nodeType (locationObject e op)
                   [(''left'', ANode left), (''right'', ANode right)]))))
         | None \<Rightarrow>
             (let nodeType =
                    (if operator = ''+'' then Some ''UnaryPlusOp''
                     else if operator = ''-'' then Some ''UnaryNegateOp''
                     else if operator = ''typeof'' then Some ''TypeofOp''
                     else None)
              in bindE (convert e first (ancestors @ [op])) (\<lambda>expression.
                 returnNode (makeNode e nodeType (locationObject e op) [(''expression'', ANode expression)]))))
      | _ \<Rightarrow> Inl TypeError)"
| "accessOpForProperty e node ancestors expression prop loc =
     (case prop of
        CsAccess pl name \<Rightarrow>
          bindE (mergeLocationsN loc (loc_of e prop)) (\<lambda>m.
          returnNode (makeNode e (Some ''MemberAccessOp'') (Some (Located m))
            [(''expression'', ANode expression), (''memberName'', AData (JString name))]))
      | CsIndex pl index \<Rightarrow>
          bindE (mergeLocationsN loc (loc_of e prop)) (\<lambda>m.
          bindE (expandLocationRightThrough e (Some m) '']'') (\<lambda>loc'.
          bindE (convert e index (ancestors @ [node, prop])) (\<lambda>indexingExpr.
          returnNode (makeNode e (Some ''DynamicMemberAccessOp'') (Some (Located loc'))
            [(''expression'', ANode expression), (''indexingExpr'', ANode indexingExpr)]))))
      | _ \<Rightarrow> Inl (UnknownPropertyType (type_of prop) prop))"
| "convertCase e node ancestors (CsCase conds body) =
     (let conditions = (case conds of CsOne c \<Rightarrow> [c] | CsMany cs \<Rightarrow> cs)
      in bindE (case conditions of
                  [] \<Rightarrow> Inl TypeError
                | c0 # _ \<Rightarrow>
                    bindE (locationContainingNodes e [c0, body]) (\<lambda>m.
                    expandLocationLeftThrough e m ''when '')) (\<lambda>loc.
         bindE (mapE (\<lambda>child. convert e child (ancestors @ [node])) conditions) (\<lambda>conditions'.
         bindE (convert e body (ancestors @ [node])) (\<lambda>consequent.
         returnNode (makeNode e (Some ''SwitchCase'') (Some (Located loc))
           [(''conditions'', ANodes conditions'), (''consequent'', ANode consequent)])))))"
| "classStatement e node ancestors (statements, ctor, boundMembers) expr =
     (let push = bindE (convert e expr (ancestors @ [node])) (\<lambda>s.
                   Inr (statements @ [s], ctor, boundMembers))
      in case expr of
           CsValue el b eprops \<Rightarrow>
             (case b of
                CsObj ol properties \<Rightarrow>
                  foldE (classProperty e node ancestors) (statements, ctor, boundMembers) properties
              | _ \<Rightarrow> push)
         | _ \<Rightarrow> push)"
| "classProperty e node ancestors (statements, ctor, boundMembers) property =
     bindE (case property of
              CsValue pl pb pp \<Rightarrow>
                bindE (convert e property (ancestors @ [node])) (\<lambda>kv. Inr (kv, kv))
            | CsAssign pl pctx variable val \<Rightarrow>
                bindE (convert e variable (ancestors @ [node])) (\<lambda>key.
                bindE (convert e val (ancestors @ [node])) (\<lambda>v. Inr (key, v)))
            | CsCall pl variable pargs \<Rightarrow>
                bindE (convert e variable (ancestors @ [node])) (\<lambda>key. Inl TypeError)
            | CsClass pl (Some variable) pbody pparent \<Rightarrow>
                bindE (convert e variable (ancestors @ [node])) (\<lambda>key. Inl TypeError)
            | _ \<Rightarrow> Inl TypeError) (\<lambda>(key, val).
     case key of
       None \<Rightarrow> Inl TypeError
     | Some k \<Rightarrow>
         bindE (if isConstructorKey k then
                  bindE (makeNode e (Some ''Constructor'') (locationObject e property)
                           [(''expression'', ANode val)]) (\<lambda>c.
                  Inr (statements @ [Some c], Some c))
                else
                  bindE (isThisMember k) (\<lambda>this.
                  if this then
                    bindE (makeNode e (Some ''AssignOp'') (locationObject e property)
                             [(''assignee'', ANode key), (''expression'', ANode val)]) (\<lambda>s.
                    Inr (statements @ [Some s], ctor))
                  else
                    bindE (makeNode e (Some ''ClassProtoAssignOp'') (locationObject e property)
                             [(''assignee'', ANode key), (''expression'', ANode val)]) (\<lambda>s.
                    Inr (statements @ [Some s], ctor)))) (\<lambda>(statements', ctor').
         case val of
           None \<Rightarrow> Inl TypeError
         | Some v \<Rightarrow>
             Inr (statements', ctor',
                  if ntype v = Some ''BoundFunction'' then boundMembers @ [last statements']
                  else boundMembers)))"
  by pat_completeness auto

text \<open>Every recursive call is on a smaller upstream node.\<close>

termination
  apply (relation "measure (\<lambda>x. case x of
      Inl (Inl (e, n, anc)) \<Rightarrow> 2 * size n + 1
    | Inl (Inr (Inl (e, op, anc))) \<Rightarrow> 2 * size op
    | Inl (Inr (Inr (e, n, anc, ex, prop, loc))) \<Rightarrow> 2 * size prop + 2
    | Inr (Inl (e, n, anc, c)) \<Rightarrow> 2 * size c + 1
    | Inr (Inr (Inl (e, n, anc, st, expr))) \<Rightarrow> 2 * size expr + 2
    | Inr (Inr (Inr (e, n, anc, st, p))) \<Rightarrow> 2 * size p + 2)")
  apply (auto dest: size_list_member)
  subgoal for l condition body elseBody by (cases condition) auto
  subgoal for e conds body by (cases conds) (auto dest: size_list_member)
  done

declare convert.simps [simp del]
declare convertOperator.simps [simp del]
declare accessOpForProperty.simps [simp del]
declare convertCase.simps [simp del]
declare classStatement.simps [simp del]
declare classProperty.simps [simp del]

text \<open>
  \<open>parse(source)\<close>, the one function the module exports. The upstream parser \<open>csParse\<close> is
  a parameter (it answers a tree or throws); the environment holds the source and its
  mapper. The empty source is answered without a conversion.
\<close>

definition parse :: "(string \<Rightarrow> error + cs_node) \<Rightarrow> env \<Rightarrow> error + node option" where
  "parse csParse e =
     (if length (source e) = 0 then
        Inr (Some (Node (Some ''Program'') (Some (Number 1)) (Some (Number 1))
                     (Some (Number 0, Number 0)) False (Some (source e))
                     [(''body'', ANode None)]))
      else bindE (csParse (source e)) (\<lambda>root. convert e root []))"

section \<open>Vocabulary of the properties\<close>

text \<open>
  Positions are compared line first, then column. A span covers another when it starts no
  later and ends no earlier.
\<close>

definition pos_le :: "int \<times> int \<Rightarrow> int \<times> int \<Rightarrow> bool" where
  "pos_le p q = (fst p < fst q \<or> (fst p = fst q \<and> snd p \<le> snd q))"

definition start_pos :: "location \<Rightarrow> int \<times> int" where
  "start_pos l = (first_line l, first_column l)"

definition end_pos :: "location \<Rightarrow> int \<times> int" where
  "end_pos l = (last_line l, last_column l)"

definition covers :: "location \<Rightarrow> location \<Rightarrow> bool" where
  "covers c a = (pos_le (start_pos c) (start_pos a) \<and> pos_le (end_pos a) (end_pos c))"

text \<open>
  The strict order of positions; \<open>earlier\<close> and \<open>later\<close> pick one of two positions, the
  second resp. the first on a tie.
\<close>

definition pos_lt :: "int \<times> int \<Rightarrow> int \<times> int \<Rightarrow> bool" where
  "pos_lt p q = (fst p < fst q \<or> (fst p = fst q \<and> snd p < snd q))"

definition earlier :: "int \<times> int \<Rightarrow> int \<times> int \<Rightarrow> int \<times> int" where
  "earlier p q = (if pos_lt p q then p else q)"

definition later :: "int \<times> int \<Rightarrow> int \<times> int \<Rightarrow> int \<times> int" where
  "later p q = (if pos_lt p q then q else p)"

text \<open>
  The left fold of \<open>mergeLocations\<close> over a list of location data, as the specification
  words \<open>mergeAll\<close>: \<open>null\<close> for no span, the span itself for one, and a merge step for
  each further span (a \<open>null\<close> operand raises the TypeError of \<open>mergeLocations\<close>).
\<close>

fun leftFoldMerge :: "location option list \<Rightarrow> error + location option" where
  "leftFoldMerge [] = Inr None"
| "leftFoldMerge (l # ls) =
     foldE (\<lambda>acc x. bindE (mergeLocationsN acc x) (\<lambda>m. Inr (Some m))) l ls"

text \<open>
  Spans are in source order when each of them starts no later and ends no later than
  every span after it, as the spans of nodes that follow one another in the text do.
\<close>

definition in_source_order :: "location list \<Rightarrow> bool" where
  "in_source_order ls =
     sorted_wrt (\<lambda>x y. pos_le (start_pos x) (start_pos y) \<and> pos_le (end_pos x) (end_pos y)) ls"

text \<open>
  Occurrences of an anchor in the source: at or after an offset, starting at or before an
  offset, the first one from an offset on, and the last one up to an offset.
  \<open>mapper_inverse\<close> says that \<open>mapper\<close> undoes \<open>mapper.invert\<close>.
\<close>

definition occurs_from :: "string \<Rightarrow> string \<Rightarrow> int \<Rightarrow> bool" where
  "occurs_from s a off = (\<exists>k. off \<le> int k \<and> occurs_at s a k)"

definition occurs_upto :: "string \<Rightarrow> string \<Rightarrow> int \<Rightarrow> bool" where
  "occurs_upto s a off = (\<exists>k. int k \<le> off \<and> occurs_at s a k)"

definition first_from :: "string \<Rightarrow> string \<Rightarrow> int \<Rightarrow> nat \<Rightarrow> bool" where
  "first_from s a off k =
     (off \<le> int k \<and> occurs_at s a k \<and> (\<forall>j<k. off \<le> int j \<longrightarrow> \<not> occurs_at s a j))"

definition last_upto :: "string \<Rightarrow> string \<Rightarrow> int \<Rightarrow> nat \<Rightarrow> bool" where
  "last_upto s a off k =
     (int k \<le> off \<and> occurs_at s a k \<and> (\<forall>j>k. int j \<le> off \<longrightarrow> \<not> occurs_at s a j))"

definition mapper_inverse :: "env \<Rightarrow> bool" where
  "mapper_inverse e = (\<forall>off. mapper e (fst (invert e off)) (snd (invert e off)) = off)"

text \<open>
  \<open><=\<close> on numbers, false with \<open>NaN\<close>. A range is numeric when both its ends are integers.
\<close>

fun le_number :: "number \<Rightarrow> number \<Rightarrow> bool" where
  "le_number (Number a) (Number b) = (a \<le> b)"
| "le_number _ _ = False"

fun numeric :: "(number \<times> number) option \<Rightarrow> bool" where
  "numeric (Some (Number a, Number b)) = True"
| "numeric _ = False"

text \<open>
  The nodes among the attributes of a node are its children. A node is \<open>built\<close> when the
  node builder returned it from attributes whose nodes are built. A descendant is a child
  or a descendant of a child; a ranged descendant is reached through children that all
  carry a numeric range.
\<close>

fun attr_nodes :: "node attr \<Rightarrow> node list" where
  "attr_nodes (ANode None) = []"
| "attr_nodes (ANode (Some n)) = [n]"
| "attr_nodes (ANodes ns) = concat (map (\<lambda>x. case x of None \<Rightarrow> [] | Some n \<Rightarrow> [n]) ns)"
| "attr_nodes (AData v) = []"

definition children_of :: "(string \<times> node attr) list \<Rightarrow> node list" where
  "children_of as = concat (map (\<lambda>kv. attr_nodes (snd kv)) as)"

definition children :: "node \<Rightarrow> node list" where
  "children n = children_of (attrs n)"

inductive built :: "env \<Rightarrow> node \<Rightarrow> bool" for e :: env where
  built_makeNode:
    "makeNode e ty loc as = Inr n \<Longrightarrow> (\<forall>c \<in> set (children_of as). built e c) \<Longrightarrow> built e n"

inductive descendant :: "node \<Rightarrow> node \<Rightarrow> bool" where
  child: "c \<in> set (children p) \<Longrightarrow> descendant p c"
| below: "c \<in> set (children p) \<Longrightarrow> descendant c d \<Longrightarrow> descendant p d"

inductive ranged_descendant :: "node \<Rightarrow> node \<Rightarrow> bool" where
  ranged_child: "c \<in> set (children p) \<Longrightarrow> ranged_descendant p c"
| ranged_below:
    "c \<in> set (children p) \<Longrightarrow> numeric (nrange c) \<Longrightarrow> ranged_descendant c d \<Longrightarrow>
     ranged_descendant p d"

section \<open>Examples\<close>

text \<open>
  The environment of a source of one line: the offset of a position is its column, the
  literal parser and \<open>JSON.parse\<close> answer nothing (every literal below is an identifier).
  \<open>span\<close> writes a location, \<open>leaf\<close> the identifier node of one character at a column.
\<close>

definition singleLine :: "string \<Rightarrow> (nat \<Rightarrow> location) \<Rightarrow> env" where
  "singleLine src ls =
     \<lparr> source = src, mapper = (\<lambda>line col. col), invert = (\<lambda>off. (0, off)),
       parseLiteral = (\<lambda>_. None), JSON_parse = (\<lambda>_. None), locs = ls,
       unlocated = (\<lambda>_. False) \<rparr>"

definition span :: "int \<Rightarrow> int \<Rightarrow> int \<Rightarrow> int \<Rightarrow> location" where
  "span fl fc ll lc = \<lparr> first_line = fl, first_column = fc, last_line = ll, last_column = lc \<rparr>"

definition leaf :: "string \<Rightarrow> int \<Rightarrow> string \<Rightarrow> node" where
  "leaf ty c txt =
     Node (Some ty) (Some (Number 1)) (Some (Number (c + 1))) (Some (Number c, Number (c + 1))) False
       (Some txt)
       [(''data'', AData (JString txt))]"

text \<open>
  Built nodes over \<open>a + b\<close>.
\<close>

definition ex_plus :: node where
  "ex_plus =
     Node (Some ''PlusOp'') (Some (Number 1)) (Some (Number 3)) (Some (Number 0, Number 5)) False
       (Some ''a + b'')
       [(''left'', ANode (Some (leaf ''Identifier'' 0 ''a''))),
        (''right'', ANode (Some (leaf ''Identifier'' 4 ''b'')))]"

definition ex_block :: node where
  "ex_block =
     Node (Some ''Block'') (Some (Number 1)) (Some (Number 3)) (Some (Number 0, Number 5)) False
       (Some ''a + b'')
       [(''statements'', ANodes [Some ex_plus])]"

text \<open>
  The source \<open># c\<close>, a comment and nothing else: its upstream tree is a root without
  expressions, and the coordinates of the root's location object are \<open>undefined\<close>.
  \<open>ex_comment_block\<close> and \<open>ex_comment_program\<close> are the nodes the converter returns for it.
\<close>

definition commentOnly :: env where
  "commentOnly =
     \<lparr> source = ''# c'', mapper = (\<lambda>line col. col), invert = (\<lambda>off. (0, off)),
       parseLiteral = (\<lambda>_. None), JSON_parse = (\<lambda>_. None), locs = (\<lambda>_. span 0 0 0 0),
       unlocated = (\<lambda>a. a = 0) \<rparr>"

definition ex_comment :: cs_node where
  "ex_comment = CsBlock (Some 0) []"

definition ex_comment_block :: node where
  "ex_comment_block =
     Node (Some ''Block'') (Some NaN) (Some NaN) (Some (NaN, NaN)) False (Some [])
       [(''statements'', ANodes [])]"

definition ex_comment_program :: node where
  "ex_comment_program =
     Node (Some ''Program'') (Some NaN) (Some NaN) (Some (NaN, NaN)) False (Some [])
       [(''body'', ANode (Some ex_comment_block))]"

text \<open>
  Upstream trees. The conditional of \<open>unless x then y\<close>: upstream makes the negation
  itself and gives it the location object of the conditional, object \<open>0\<close>. The
  conditional of \<open>if !x then y\<close>: the negation is written and has its own location
  object, object \<open>1\<close>. The operators of \<open>a < b\<close> and \<open>!a\<close>. A switch whose case
  \<open>when a, x then b\<close> has the conditions \<open>a\<close> and \<open>x\<close> and the body \<open>b\<close>.
\<close>

definition ex_unless_locs :: "nat \<Rightarrow> location" where
  "ex_unless_locs r =
     (if r = 1 then span 0 7 0 7 else if r = 2 then span 0 14 0 14 else span 0 0 0 14)"

definition ex_unless :: cs_node where
  "ex_unless =
     CsIf (Some 0)
       (CsOp (Some 0) ''!'' (CsValue (Some 1) (CsLiteral (Some 1) ''x'') []) None)
       (CsBlock (Some 2) [CsValue (Some 2) (CsLiteral (Some 2) ''y'') []])
       None"

definition ex_ifnot_locs :: "nat \<Rightarrow> location" where
  "ex_ifnot_locs r =
     (if r = 1 then span 0 3 0 4 else if r = 2 then span 0 4 0 4
      else if r = 3 then span 0 11 0 11 else span 0 0 0 11)"

definition ex_ifnot :: cs_node where
  "ex_ifnot =
     CsIf (Some 0)
       (CsOp (Some 1) ''!'' (CsValue (Some 2) (CsLiteral (Some 2) ''x'') []) None)
       (CsBlock (Some 3) [CsValue (Some 3) (CsLiteral (Some 3) ''y'') []])
       None"

definition ex_less_locs :: "nat \<Rightarrow> location" where
  "ex_less_locs r = (if r = 0 then span 0 0 0 4 else if r = 1 then span 0 0 0 0 else span 0 4 0 4)"

definition ex_less :: cs_node where
  "ex_less =
     CsOp (Some 0) ''<''
       (CsValue (Some 1) (CsLiteral (Some 1) ''a'') [])
       (Some (CsValue (Some 2) (CsLiteral (Some 2) ''b'') []))"

definition ex_not :: cs_node where
  "ex_not = CsOp (Some 1) ''!'' (CsValue (Some 1) (CsLiteral (Some 1) ''a'') []) None"

definition ex_when_locs :: "nat \<Rightarrow> location" where
  "ex_when_locs r =
     (if r = 1 then span 0 5 0 5 else if r = 2 then span 0 8 0 8 else if r = 3 then span 0 15 0 15
      else span 0 0 0 15)"

definition ex_switch :: cs_node where
  "ex_switch =
     CsSwitch (Some 0) (Some (CsValue (Some 0) (CsLiteral (Some 0) ''s'') []))
       [CsCase (CsMany [CsValue (Some 1) (CsLiteral (Some 1) ''a'') [],
                        CsValue (Some 2) (CsLiteral (Some 2) ''x'') []])
          (CsValue (Some 3) (CsLiteral (Some 3) ''b'') [])]
       None"

definition ex_when :: cs_case where
  "ex_when =
     CsCase (CsMany [CsValue (Some 1) (CsLiteral (Some 1) ''a'') [],
                     CsValue (Some 2) (CsLiteral (Some 2) ''x'') []])
       (CsValue (Some 3) (CsLiteral (Some 3) ''b'') [])"

section \<open>Properties of the location algebra\<close>

text \<open>
  C9. \<open>mergeLocations\<close> is commutative on span values: both argument orders give the same
  four coordinates, since the tie-breaks only choose between equal coordinate pairs.
\<close>

theorem mergeLocations_commute:
  "mergeLocations a b = mergeLocations b a"
  by (simp add: mergeLocations_def Let_def)

text \<open>
  C6. \<open>mergeLocations a b\<close> is the smallest span covering both: it covers \<open>a\<close> and \<open>b\<close>,
  every span covering both covers it, its start is the earlier of the two starts and its
  end the later of the two ends (line first, then column); on equal starts the values
  are those of the second operand, on equal ends those of the first.
\<close>

theorem mergeLocations_smallest_cover:
  "covers (mergeLocations a b) a \<and> covers (mergeLocations a b) b \<and>
   (\<forall>c. covers c a \<and> covers c b \<longrightarrow> covers c (mergeLocations a b)) \<and>
   start_pos (mergeLocations a b) =
     (if pos_lt (start_pos a) (start_pos b) then start_pos a else start_pos b) \<and>
   end_pos (mergeLocations a b) =
     (if pos_lt (end_pos a) (end_pos b) then end_pos b else end_pos a)"
  by (auto simp: mergeLocations_def covers_def pos_le_def pos_lt_def start_pos_def end_pos_def Let_def)

text \<open>
  Two spans with the same start, the second ending later, and a third span covering both.
\<close>

theorem mergeLocations_smallest_cover_witness:
  "covers (mergeLocations \<lparr>first_line = 0, first_column = 4, last_line = 0, last_column = 9\<rparr>
                          \<lparr>first_line = 0, first_column = 4, last_line = 1, last_column = 2\<rparr>)
          \<lparr>first_line = 0, first_column = 4, last_line = 0, last_column = 9\<rparr> \<and>
   covers \<lparr>first_line = 0, first_column = 0, last_line = 2, last_column = 0\<rparr>
          (mergeLocations \<lparr>first_line = 0, first_column = 4, last_line = 0, last_column = 9\<rparr>
                          \<lparr>first_line = 0, first_column = 4, last_line = 1, last_column = 2\<rparr>) \<and>
   mergeLocations \<lparr>first_line = 0, first_column = 4, last_line = 0, last_column = 9\<rparr>
                  \<lparr>first_line = 0, first_column = 4, last_line = 1, last_column = 2\<rparr> =
     \<lparr>first_line = 0, first_column = 4, last_line = 1, last_column = 2\<rparr>"
proof -
  let ?a = "\<lparr>first_line = 0, first_column = 4, last_line = 0, last_column = 9\<rparr>"
  let ?b = "\<lparr>first_line = 0, first_column = 4, last_line = 1, last_column = 2\<rparr>"
  let ?c = "\<lparr>first_line = 0, first_column = 0, last_line = 2, last_column = 0\<rparr>"
  have ca: "covers ?c ?a" and cb: "covers ?c ?b"
    by (simp_all add: covers_def pos_le_def start_pos_def end_pos_def)
  have m: "mergeLocations ?a ?b = ?b"
    by (simp add: mergeLocations_def)
  from mergeLocations_smallest_cover [of ?a ?b] ca cb m show ?thesis
    by metis
qed

text \<open>
  Merging takes the earlier start and the later end, so it is associative and absorbs a
  span it already covers; the nesting of the merges does not matter.
\<close>

lemma mergeLocations_swap: "mergeLocations a b = mergeLocations b a"
  by (simp add: mergeLocations_def Let_def)

lemma start_pos_merge: "start_pos (mergeLocations a b) = earlier (start_pos a) (start_pos b)"
  by (simp add: mergeLocations_def start_pos_def earlier_def pos_lt_def Let_def)

lemma end_pos_merge: "end_pos (mergeLocations a b) = later (end_pos a) (end_pos b)"
  by (simp add: mergeLocations_def end_pos_def later_def pos_lt_def Let_def)

lemma earlier_assoc: "earlier (earlier p q) r = earlier p (earlier q r)"
  by (cases p; cases q; cases r) (auto simp: earlier_def pos_lt_def)

lemma later_assoc: "later (later p q) r = later p (later q r)"
  by (cases p; cases q; cases r) (auto simp: later_def pos_lt_def)

lemma location_eq_iff:
  "(l = l') = (start_pos l = start_pos l' \<and> end_pos l = end_pos l')"
  by (cases l; cases l') (auto simp: start_pos_def end_pos_def)

lemma mergeLocations_assoc:
  "mergeLocations (mergeLocations a b) c = mergeLocations a (mergeLocations b c)"
  by (simp add: location_eq_iff start_pos_merge end_pos_merge earlier_assoc later_assoc)

lemma mergeLocations_absorb: "covers m c \<Longrightarrow> mergeLocations m c = m"
  by (cases m; cases c)
     (auto simp: mergeLocations_def covers_def pos_le_def start_pos_def end_pos_def)

lemma foldE_merge_Some:
  "foldE (\<lambda>acc x. bindE (mergeLocationsN acc x) (\<lambda>m. Inr (Some m))) (Some a) (map Some ls)
     = Inr (Some (foldl mergeLocations a ls))"
  by (induction ls arbitrary: a) (simp_all add: bindE_def)

lemma leftFoldMerge_Some:
  "leftFoldMerge (Some a # map Some ls) = Inr (Some (foldl mergeLocations a ls))"
  by (simp add: foldE_merge_Some)

lemma foldE_merge_None:
  "foldE (\<lambda>acc x. bindE (mergeLocationsN acc x) (\<lambda>m. Inr (Some m))) None (l # ls) = Inl TypeError"
  by (simp add: bindE_def)

lemma foldE_merge_error:
  "None \<in> set ls \<Longrightarrow>
   foldE (\<lambda>acc x. bindE (mergeLocationsN acc x) (\<lambda>m. Inr (Some m))) (Some a) ls = Inl TypeError"
proof (induction ls arbitrary: a)
  case Nil
  then show ?case by simp
next
  case (Cons l ls)
  show ?case
  proof (cases l)
    case None
    then show ?thesis by (simp add: bindE_def)
  next
    case (Some b)
    with Cons show ?thesis by (simp add: bindE_def)
  qed
qed

lemma foldl_merge_shift:
  "mergeLocations a (foldl mergeLocations b ls) = foldl mergeLocations (mergeLocations a b) ls"
  by (induction ls arbitrary: b) (simp_all add: mergeLocations_assoc)

lemma options_cases: "None \<in> set xs \<or> (\<exists>ys. xs = map Some ys)"
proof (induction xs)
  case Nil
  then show ?case by simp
next
  case (Cons x xs)
  show ?case
  proof (cases x)
    case None
    then show ?thesis by simp
  next
    case (Some y)
    from Cons show ?thesis
    proof
      assume "None \<in> set xs"
      then show ?thesis by simp
    next
      assume "\<exists>ys. xs = map Some ys"
      then obtain ys where "xs = map Some ys" ..
      with Some have "x # xs = map Some (y # ys)" by simp
      then show ?thesis by (intro disjI2 exI)
    qed
  qed
qed

lemma leftFoldMerge_None:
  "None \<in> set (l # l' # ls) \<Longrightarrow> leftFoldMerge (l # l' # ls) = Inl TypeError"
proof (cases l)
  case None
  then show ?thesis by (simp add: bindE_def)
next
  case (Some a)
  assume "None \<in> set (l # l' # ls)"
  with Some have "None \<in> set (l' # ls)" by auto
  from foldE_merge_error [OF this] Some show ?thesis by simp
qed

text \<open>
  The source merges from the right (\<open>merge n0 (merge n1 (\<dots>))\<close>); the left fold gives the
  same result, also where a location is \<open>null\<close>.
\<close>

lemma locationContainingNodes_leftFold:
  "2 \<le> length ns \<Longrightarrow> locationContainingNodes e ns = leftFoldMerge (map (loc_of e) ns)"
proof (induction e ns rule: locationContainingNodes.induct)
  case (1 e)
  then show ?case by simp
next
  case (2 e n0)
  then show ?case by simp
next
  case (3 e n0 n1)
  show ?case by (simp add: bindE_def split: sum.splits)
next
  case (4 e n0 v vb vc)
  let ?xs = "map (loc_of e) (v # vb # vc)"
  have ih: "locationContainingNodes e (v # vb # vc) = leftFoldMerge ?xs"
    using 4 by simp
  have unfold: "locationContainingNodes e (n0 # v # vb # vc) =
      bindE (leftFoldMerge ?xs) (\<lambda>r. bindE (mergeLocationsN (loc_of e n0) r) (\<lambda>m. Inr (Some m)))"
    using ih by simp
  from options_cases [of "loc_of e n0 # ?xs"] show ?case
  proof
    assume none: "None \<in> set (loc_of e n0 # ?xs)"
    have rhs: "leftFoldMerge (map (loc_of e) (n0 # v # vb # vc)) = Inl TypeError"
      using leftFoldMerge_None [of "loc_of e n0" "loc_of e v" "map (loc_of e) (vb # vc)"] none
      by simp
    have lhs: "locationContainingNodes e (n0 # v # vb # vc) = Inl TypeError"
    proof (cases "None \<in> set ?xs")
      case True
      then have "leftFoldMerge ?xs = Inl TypeError"
        using leftFoldMerge_None [of "loc_of e v" "loc_of e vb" "map (loc_of e) vc"] by simp
      then show ?thesis unfolding unfold by (simp add: bindE_def)
    next
      case False
      with none have n0: "loc_of e n0 = None" by auto
      from False options_cases [of ?xs] obtain ys where "?xs = map Some ys" by blast
      then obtain a1 as where "?xs = Some a1 # map Some as" by (cases ys) auto
      then have "leftFoldMerge ?xs = Inr (Some (foldl mergeLocations a1 as))"
        using leftFoldMerge_Some [of a1 as] by simp
      then show ?thesis unfolding unfold n0 by (simp add: bindE_def)
    qed
    from lhs rhs show ?thesis by simp
  next
    assume "\<exists>ys. loc_of e n0 # ?xs = map Some ys"
    then obtain ys where ys: "loc_of e n0 # ?xs = map Some ys" ..
    then obtain a0 a1 as where shape: "ys = a0 # a1 # as"
      by (cases ys; cases "tl ys") auto
    from ys shape have l0: "loc_of e n0 = Some a0" and xs: "?xs = Some a1 # map Some as"
      by simp_all
    have "leftFoldMerge ?xs = Inr (Some (foldl mergeLocations a1 as))"
      unfolding xs by (rule leftFoldMerge_Some)
    then have lhs: "locationContainingNodes e (n0 # v # vb # vc) =
        Inr (Some (mergeLocations a0 (foldl mergeLocations a1 as)))"
      unfolding unfold l0 by (simp add: bindE_def)
    have "map (loc_of e) (n0 # v # vb # vc) = Some a0 # map Some (a1 # as)"
      using l0 xs by simp
    then have rhs: "leftFoldMerge (map (loc_of e) (n0 # v # vb # vc)) =
        Inr (Some (foldl mergeLocations a0 (a1 # as)))"
      using leftFoldMerge_Some [of a0 "a1 # as"] by simp
    from lhs rhs show ?thesis by (simp add: foldl_merge_shift)
  qed
qed

text \<open>
  C7. \<open>locationContainingNodes\<close> of no node is \<open>null\<close>; of one node it is that node's
  location data, unchanged; of more than two nodes it is the result of the left fold of
  \<open>mergeLocations\<close> over their location data, in order.
\<close>

theorem locationContainingNodes_cases:
  "locationContainingNodes e [] = Inr None \<and>
   locationContainingNodes e [n] = Inr (loc_of e n) \<and>
   locationContainingNodes e (n0 # n1 # n2 # ns) =
     leftFoldMerge (map (loc_of e) (n0 # n1 # n2 # ns))"
  using locationContainingNodes_leftFold [of "n0 # n1 # n2 # ns" e] by simp

section \<open>Properties of the location expansion\<close>

text \<open>
  What \<open>find\<close> answers on an interval counted up and on one counted down, and from it what
  \<open>indexOf\<close> and \<open>lastIndexOf\<close> answer.
\<close>

lemma find_upt_None: "(find P [m ..< n] = None) = (\<forall>k. m \<le> k \<and> k < n \<longrightarrow> \<not> P k)"
  by (auto simp: find_None_iff)

lemma find_upt_Some:
  "find P [m ..< n] = Some k \<Longrightarrow> m \<le> k \<and> k < n \<and> P k \<and> (\<forall>j. m \<le> j \<and> j < k \<longrightarrow> \<not> P j)"
proof -
  assume "find P [m ..< n] = Some k"
  then obtain i where i: "i < length [m ..< n]" "P ([m ..< n] ! i)" "k = [m ..< n] ! i"
      "\<forall>j<i. \<not> P ([m ..< n] ! j)"
    by (auto simp: find_Some_iff)
  from i have k: "k = m + i" "i < n - m" by simp_all
  have "\<not> P j" if "m \<le> j" "j < k" for j
  proof -
    from that k have "j - m < i" by simp
    with i(4) have "\<not> P ([m ..< n] ! (j - m))" by blast
    moreover from that k have "[m ..< n] ! (j - m) = j" by simp
    ultimately show ?thesis by simp
  qed
  with i k show ?thesis by auto
qed

lemma find_rev_upt_None: "(find P (rev [0 ..< n]) = None) = (\<forall>k<n. \<not> P k)"
  by (auto simp: find_None_iff)

lemma find_rev_upt_Some:
  "find P (rev [0 ..< n]) = Some k \<Longrightarrow> k < n \<and> P k \<and> (\<forall>j. k < j \<and> j < n \<longrightarrow> \<not> P j)"
proof (induction n)
  case 0
  then show ?case by simp
next
  case (Suc n)
  show ?case
  proof (cases "P n")
    case True
    with Suc.prems have "k = n" by simp
    with True show ?thesis by auto
  next
    case False
    with Suc.prems have "find P (rev [0 ..< n]) = Some k" by simp
    from Suc.IH [OF this] False show ?thesis
      by (auto simp: less_Suc_eq)
  qed
qed

lemma indexOf_cases:
  assumes "a \<noteq> []"
  shows "(indexOf s a pos = - 1 \<and> \<not> (\<exists>k. pos \<le> int k \<and> occurs_at s a k)) \<or>
         (\<exists>k. indexOf s a pos = int k \<and> pos \<le> int k \<and> occurs_at s a k \<and>
              (\<forall>j<k. pos \<le> int j \<longrightarrow> \<not> occurs_at s a j))"
proof -
  define start where "start = nat (min (max pos 0) (int (length s)))"
  have rel: "(start \<le> k) = (pos \<le> int k)" if "occurs_at s a k" for k
  proof -
    from that assms have "k < length s" by (cases a) (auto simp: occurs_at_def)
    then show ?thesis unfolding start_def by auto
  qed
  show ?thesis
  proof (cases "find (occurs_at s a) [start ..< Suc (length s)]")
    case None
    then have no: "\<forall>k. start \<le> k \<and> k < Suc (length s) \<longrightarrow> \<not> occurs_at s a k"
      by (simp only: find_upt_None)
    have "\<not> occurs_at s a k" if "pos \<le> int k" for k
    proof
      assume occ: "occurs_at s a k"
      with that rel have "start \<le> k" by simp
      moreover from occ have "k < Suc (length s)" by (simp add: occurs_at_def)
      ultimately show False using no occ by blast
    qed
    moreover from None have "indexOf s a pos = - 1"
      by (simp add: indexOf_def start_def Let_def)
    ultimately show ?thesis by blast
  next
    case (Some k)
    from find_upt_Some [OF Some] have k: "start \<le> k" "occurs_at s a k"
      and least: "\<forall>j. start \<le> j \<and> j < k \<longrightarrow> \<not> occurs_at s a j" by simp_all
    have "\<not> occurs_at s a j" if "j < k" "pos \<le> int j" for j
    proof
      assume occ: "occurs_at s a j"
      with that rel have "start \<le> j" by simp
      with least that occ show False by blast
    qed
    moreover from Some have "indexOf s a pos = int k"
      by (simp add: indexOf_def start_def Let_def)
    moreover from k rel have "pos \<le> int k" by simp
    ultimately show ?thesis using k by blast
  qed
qed

lemma lastIndexOf_cases:
  assumes "0 \<le> pos"
  shows "(lastIndexOf s a pos = - 1 \<and> \<not> (\<exists>k. int k \<le> pos \<and> occurs_at s a k)) \<or>
         (\<exists>k. lastIndexOf s a pos = int k \<and> int k \<le> pos \<and> occurs_at s a k \<and>
              (\<forall>j>k. int j \<le> pos \<longrightarrow> \<not> occurs_at s a j))"
proof -
  define start where "start = nat (min (max pos 0) (int (length s)))"
  have rel: "(k \<le> start) = (int k \<le> pos)" if "occurs_at s a k" for k
  proof -
    from that have "k \<le> length s" by (simp add: occurs_at_def)
    with assms show ?thesis unfolding start_def by auto
  qed
  show ?thesis
  proof (cases "find (occurs_at s a) (rev [0 ..< Suc start])")
    case None
    then have no: "\<forall>k<Suc start. \<not> occurs_at s a k"
      by (simp only: find_rev_upt_None)
    have "\<not> occurs_at s a k" if "int k \<le> pos" for k
    proof
      assume occ: "occurs_at s a k"
      with that rel have "k \<le> start" by simp
      with no occ show False by (simp add: less_Suc_eq_le)
    qed
    moreover from None have "lastIndexOf s a pos = - 1"
      by (simp add: lastIndexOf_def start_def Let_def)
    ultimately show ?thesis by blast
  next
    case (Some k)
    from find_rev_upt_Some [OF Some] have k: "k < Suc start" "occurs_at s a k"
      and greatest: "\<forall>j. k < j \<and> j < Suc start \<longrightarrow> \<not> occurs_at s a j" by simp_all
    have "\<not> occurs_at s a j" if "k < j" "int j \<le> pos" for j
    proof
      assume occ: "occurs_at s a j"
      with that rel have "j \<le> start" by simp
      with greatest that occ show False by (simp add: less_Suc_eq_le)
    qed
    moreover from Some have "lastIndexOf s a pos = int k"
      by (simp add: lastIndexOf_def start_def Let_def)
    moreover from k rel have "int k \<le> pos" by (simp add: less_Suc_eq_le)
    ultimately show ?thesis using k by blast
  qed
qed

lemma singleLine_simps:
  "source (singleLine src ls) = src"
  "mapper (singleLine src ls) l c = c"
  "invert (singleLine src ls) off = (0, off)"
  "parseLiteral (singleLine src ls) v = None"
  "JSON_parse (singleLine src ls) v = None"
  "locs (singleLine src ls) = ls"
  "unlocated (singleLine src ls) a = False"
  by (simp_all add: singleLine_def)

text \<open>
  C8. For a non-empty anchor and a start offset that is not negative:
  \<open>expandLocationRightThrough\<close> raises exactly when the anchor does not occur at or after
  the end offset of the span (the offset after its last character), and
  \<open>expandLocationLeftThrough\<close> exactly when no occurrence starts at or before the start
  offset. The error carries the one-based line and column searched from and the anchor.
  On success the other endpoint is unchanged; the end moves to the last character of the
  first occurrence found (the offset after it is the offset after the anchor), resp. the
  start moves to the start of the last occurrence found.
\<close>

theorem expandLocation_anchor:
  assumes "str \<noteq> []" and "0 \<le> mapper e (first_line loc) (first_column loc)"
  shows
    "(case expandLocationRightThrough e (Some loc) str of
        Inl err \<Rightarrow>
          err = NotFollowedBy (last_line loc + 1) (last_column loc + 1) str \<and>
          \<not> occurs_from (source e) str (mapper e (last_line loc) (last_column loc) + 1)
      | Inr r \<Rightarrow>
          (\<exists>k. first_from (source e) str (mapper e (last_line loc) (last_column loc) + 1) k \<and>
               first_line r = first_line loc \<and> first_column r = first_column loc \<and>
               (last_line r, last_column r) = invert e (int k + int (length str) - 1) \<and>
               (mapper_inverse e \<longrightarrow>
                  mapper e (last_line r) (last_column r) + 1 = int k + int (length str)))) \<and>
     (case expandLocationLeftThrough e (Some loc) str of
        Inl err \<Rightarrow>
          err = NotPrecededBy (first_line loc + 1) (first_column loc + 1) str \<and>
          \<not> occurs_upto (source e) str (mapper e (first_line loc) (first_column loc))
      | Inr r \<Rightarrow>
          (\<exists>k. last_upto (source e) str (mapper e (first_line loc) (first_column loc)) k \<and>
               last_line r = last_line loc \<and> last_column r = last_column loc \<and>
               (first_line r, first_column r) = invert e (int k) \<and>
               (mapper_inverse e \<longrightarrow> mapper e (first_line r) (first_column r) = int k)))"
proof
  let ?off = "mapper e (last_line loc) (last_column loc) + 1"
  from indexOf_cases [OF assms(1), of "source e" ?off]
  show "case expandLocationRightThrough e (Some loc) str of
        Inl err \<Rightarrow>
          err = NotFollowedBy (last_line loc + 1) (last_column loc + 1) str \<and>
          \<not> occurs_from (source e) str ?off
      | Inr r \<Rightarrow>
          (\<exists>k. first_from (source e) str ?off k \<and>
               first_line r = first_line loc \<and> first_column r = first_column loc \<and>
               (last_line r, last_column r) = invert e (int k + int (length str) - 1) \<and>
               (mapper_inverse e \<longrightarrow>
                  mapper e (last_line r) (last_column r) + 1 = int k + int (length str)))"
  proof
    assume "indexOf (source e) str ?off = - 1 \<and> \<not> (\<exists>k. ?off \<le> int k \<and> occurs_at (source e) str k)"
    then show ?thesis by (simp add: occurs_from_def Let_def)
  next
    assume "\<exists>k. indexOf (source e) str ?off = int k \<and> ?off \<le> int k \<and> occurs_at (source e) str k \<and>
              (\<forall>j<k. ?off \<le> int j \<longrightarrow> \<not> occurs_at (source e) str j)"
    then obtain k where k: "indexOf (source e) str ?off = int k"
      and f: "first_from (source e) str ?off k"
      by (auto simp: first_from_def)
    have "expandLocationRightThrough e (Some loc) str =
        Inr \<lparr> first_line = first_line loc, first_column = first_column loc,
              last_line = fst (invert e (int k + int (length str) - 1)),
              last_column = snd (invert e (int k + int (length str) - 1)) \<rparr>"
      using k by (simp add: Let_def)
    with f show ?thesis by (auto simp: mapper_inverse_def)
  qed
next
  let ?off = "mapper e (first_line loc) (first_column loc)"
  from lastIndexOf_cases [OF assms(2), of "source e" str]
  show "case expandLocationLeftThrough e (Some loc) str of
        Inl err \<Rightarrow>
          err = NotPrecededBy (first_line loc + 1) (first_column loc + 1) str \<and>
          \<not> occurs_upto (source e) str ?off
      | Inr r \<Rightarrow>
          (\<exists>k. last_upto (source e) str ?off k \<and>
               last_line r = last_line loc \<and> last_column r = last_column loc \<and>
               (first_line r, first_column r) = invert e (int k) \<and>
               (mapper_inverse e \<longrightarrow> mapper e (first_line r) (first_column r) = int k))"
  proof
    assume "lastIndexOf (source e) str ?off = - 1 \<and> \<not> (\<exists>k. int k \<le> ?off \<and> occurs_at (source e) str k)"
    then show ?thesis by (simp add: occurs_upto_def Let_def)
  next
    assume "\<exists>k. lastIndexOf (source e) str ?off = int k \<and> int k \<le> ?off \<and> occurs_at (source e) str k \<and>
              (\<forall>j>k. int j \<le> ?off \<longrightarrow> \<not> occurs_at (source e) str j)"
    then obtain k where k: "lastIndexOf (source e) str ?off = int k"
      and f: "last_upto (source e) str ?off k"
      by (auto simp: last_upto_def)
    have "expandLocationLeftThrough e (Some loc) str =
        Inr \<lparr> first_line = fst (invert e (int k)), first_column = snd (invert e (int k)),
              last_line = last_line loc, last_column = last_column loc \<rparr>"
      using k by (simp add: Let_def)
    with f show ?thesis by (auto simp: mapper_inverse_def)
  qed
qed

text \<open>
  Over \<open>when a[b]\<close>, from the span of \<open>a[b\<close>: the bracket is found to the right at offset
  8, and none starts at or before offset 5.
\<close>

theorem expandLocation_anchor_witness:
  "expandLocationRightThrough (singleLine ''when a[b]'' (\<lambda>_. span 0 0 0 0)) (Some (span 0 5 0 7)) '']''
     = Inr (span 0 5 0 8) \<and>
   first_from ''when a[b]'' '']'' 8 8 \<and>
   expandLocationLeftThrough (singleLine ''when a[b]'' (\<lambda>_. span 0 0 0 0)) (Some (span 0 5 0 7)) '']''
     = Inl (NotPrecededBy 1 6 '']'') \<and>
   \<not> occurs_upto ''when a[b]'' '']'' 5"
proof -
  let ?e = "singleLine ''when a[b]'' (\<lambda>_. span 0 0 0 0)"
  have h1: "'']'' \<noteq> []" by simp
  have h2: "0 \<le> mapper ?e (first_line (span 0 5 0 7)) (first_column (span 0 5 0 7))"
    by (simp add: singleLine_simps span_def)
  have r: "expandLocationRightThrough ?e (Some (span 0 5 0 7)) '']'' = Inr (span 0 5 0 8)"
    by (simp add: singleLine_simps span_def indexOf_def occurs_at_def upt_rec)
  have l: "expandLocationLeftThrough ?e (Some (span 0 5 0 7)) '']'' = Inl (NotPrecededBy 1 6 '']'')"
    by (simp add: singleLine_simps span_def lastIndexOf_def occurs_at_def upt_rec)
  from expandLocation_anchor [OF h1 h2] r l show ?thesis
    by (auto simp: singleLine_simps span_def)
qed

section \<open>Properties of the node builder\<close>

text \<open>
  The loop over the attributes, started on a range of two integers, ends on a range of two
  integers: it only lowers the start and raises the end, and the range it ends with
  contains the numeric range of every node among the attributes. Started on
  \<open>(NaN, NaN)\<close> it changes nothing, since every comparison is false.
\<close>

lemma widen_step:
  "\<exists>s1 e1.
     (case nrange n of
        None \<Rightarrow> (Number s, Number e)
      | Some (cs, ce) \<Rightarrow>
          (if less_number cs (Number s) then cs else Number s,
           if less_number (Number e) ce then ce else Number e)) = (Number s1, Number e1) \<and>
     s1 \<le> s \<and> e \<le> e1 \<and>
     (\<forall>c0 c1. nrange n = Some (Number c0, Number c1) \<longrightarrow> s1 \<le> c0 \<and> c1 \<le> e1)"
proof (cases "nrange n")
  case None
  then show ?thesis by simp
next
  case (Some r)
  obtain cs ce where r: "r = (cs, ce)" by (cases r)
  show ?thesis
    by (cases cs; cases ce) (auto simp: Some r)
qed

lemma widen_result:
  "widen (Number s, Number e) ns = Inr r' \<Longrightarrow>
   \<exists>s' e'. r' = (Number s', Number e') \<and> s' \<le> s \<and> e \<le> e' \<and>
     (\<forall>n c0 c1. Some n \<in> set ns \<longrightarrow> nrange n = Some (Number c0, Number c1) \<longrightarrow>
        s' \<le> c0 \<and> c1 \<le> e')"
proof (induction ns arbitrary: s e)
  case Nil
  then show ?case by auto
next
  case (Cons x ns)
  from Cons.prems obtain n where x: "x = Some n" by (cases x) auto
  from widen_step [where n = n and s = s and e = e] obtain s1 e1 where
    step: "(case nrange n of
              None \<Rightarrow> (Number s, Number e)
            | Some (cs, ce) \<Rightarrow>
                (if less_number cs (Number s) then cs else Number s,
                 if less_number (Number e) ce then ce else Number e)) = (Number s1, Number e1)"
    and le: "s1 \<le> s" "e \<le> e1"
    and cover: "\<forall>c0 c1. nrange n = Some (Number c0, Number c1) \<longrightarrow> s1 \<le> c0 \<and> c1 \<le> e1"
    by blast
  from Cons.prems x step have "widen (Number s1, Number e1) ns = Inr r'" by simp
  from Cons.IH [OF this] obtain s' e' where
    r': "r' = (Number s', Number e')" and le': "s' \<le> s1" "e1 \<le> e'"
    and cover': "\<forall>m c0 c1. Some m \<in> set ns \<longrightarrow> nrange m = Some (Number c0, Number c1) \<longrightarrow>
        s' \<le> c0 \<and> c1 \<le> e'"
    by blast
  have "\<forall>m c0 c1. Some m \<in> set (x # ns) \<longrightarrow> nrange m = Some (Number c0, Number c1) \<longrightarrow>
      s' \<le> c0 \<and> c1 \<le> e'"
    using x cover cover' le' by fastforce
  with r' le le' show ?case by fastforce
qed

lemma widen_NaN: "widen (NaN, NaN) ns = Inr r' \<Longrightarrow> r' = (NaN, NaN)"
proof (induction ns)
  case Nil
  then show ?case by simp
next
  case (Cons x ns)
  from Cons.prems obtain n where x: "x = Some n" by (cases x) auto
  have "(case nrange n of
           None \<Rightarrow> (NaN, NaN)
         | Some (cs, ce) \<Rightarrow>
             (if less_number cs NaN then cs else NaN, if less_number NaN ce then ce else NaN))
        = (NaN, NaN)"
    by (simp split: option.split prod.split)
  with Cons.prems x have "widen (NaN, NaN) ns = Inr r'" by simp
  then show ?case by (rule Cons.IH)
qed

lemma expandRange_result:
  assumes "expandRange (Number s, Number e) a = Inr r'"
  shows "\<exists>s' e'. r' = (Number s', Number e') \<and> s' \<le> s \<and> e \<le> e' \<and>
     (\<forall>n c0 c1. n \<in> set (attr_nodes a) \<longrightarrow> nrange n = Some (Number c0, Number c1) \<longrightarrow>
        s' \<le> c0 \<and> c1 \<le> e')"
proof (cases a)
  case (ANode x)
  show ?thesis
  proof (cases x)
    case None
    with ANode assms show ?thesis by auto
  next
    case (Some n)
    with ANode assms have "widen (Number s, Number e) [Some n] = Inr r'" by simp
    from widen_result [OF this] Some ANode show ?thesis by auto
  qed
next
  case (ANodes ns)
  with assms have w: "widen (Number s, Number e) ns = Inr r'" by simp
  have "Some n \<in> set ns" if "n \<in> set (attr_nodes (ANodes ns))" for n
    using that by (auto split: option.splits)
  with widen_result [OF w] ANodes show ?thesis by blast
next
  case (AData v)
  with assms show ?thesis by auto
qed

lemma expandRange_NaN:
  assumes "expandRange (NaN, NaN) a = Inr r'"
  shows "r' = (NaN, NaN)"
proof (cases a)
  case (ANode x)
  show ?thesis
  proof (cases x)
    case None
    with ANode assms show ?thesis by simp
  next
    case (Some n)
    with ANode assms have "widen (NaN, NaN) [Some n] = Inr r'" by simp
    then show ?thesis by (rule widen_NaN)
  qed
next
  case (ANodes ns)
  with assms have "widen (NaN, NaN) ns = Inr r'" by simp
  then show ?thesis by (rule widen_NaN)
next
  case (AData v)
  with assms show ?thesis by simp
qed

lemma foldE_expandRange_result:
  "foldE expandRange (Number s, Number e) as = Inr r' \<Longrightarrow>
   \<exists>s' e'. r' = (Number s', Number e') \<and> s' \<le> s \<and> e \<le> e' \<and>
     (\<forall>a n c0 c1. a \<in> set as \<longrightarrow> n \<in> set (attr_nodes a) \<longrightarrow>
        nrange n = Some (Number c0, Number c1) \<longrightarrow> s' \<le> c0 \<and> c1 \<le> e')"
proof (induction as arbitrary: s e)
  case Nil
  then show ?case by auto
next
  case (Cons a as)
  from Cons.prems obtain r1 where r1: "expandRange (Number s, Number e) a = Inr r1"
    and rest: "foldE expandRange r1 as = Inr r'"
    by (auto simp: bindE_def split: sum.splits)
  from expandRange_result [OF r1] obtain s1 e1 where
    r1': "r1 = (Number s1, Number e1)" and le: "s1 \<le> s" "e \<le> e1"
    and cover: "\<forall>n c0 c1. n \<in> set (attr_nodes a) \<longrightarrow> nrange n = Some (Number c0, Number c1) \<longrightarrow>
        s1 \<le> c0 \<and> c1 \<le> e1"
    by blast
  from rest r1' have "foldE expandRange (Number s1, Number e1) as = Inr r'" by simp
  from Cons.IH [OF this] obtain s' e' where
    r': "r' = (Number s', Number e')" and le': "s' \<le> s1" "e1 \<le> e'"
    and cover': "\<forall>b n c0 c1. b \<in> set as \<longrightarrow> n \<in> set (attr_nodes b) \<longrightarrow>
        nrange n = Some (Number c0, Number c1) \<longrightarrow> s' \<le> c0 \<and> c1 \<le> e'"
    by blast
  have "\<forall>b n c0 c1. b \<in> set (a # as) \<longrightarrow> n \<in> set (attr_nodes b) \<longrightarrow>
      nrange n = Some (Number c0, Number c1) \<longrightarrow> s' \<le> c0 \<and> c1 \<le> e'"
    using cover cover' le' by fastforce
  with r' le le' show ?case by fastforce
qed

lemma foldE_expandRange_NaN: "foldE expandRange (NaN, NaN) as = Inr r' \<Longrightarrow> r' = (NaN, NaN)"
proof (induction as)
  case Nil
  then show ?case by simp
next
  case (Cons a as)
  from Cons.prems obtain r1 where r1: "expandRange (NaN, NaN) a = Inr r1"
    and rest: "foldE expandRange r1 as = Inr r'"
    by (auto simp: bindE_def split: sum.splits)
  from expandRange_NaN [OF r1] rest have "foldE expandRange (NaN, NaN) as = Inr r'" by simp
  then show ?case by (rule Cons.IH)
qed

text \<open>
  The three shapes of a built node: virtual without a location object, ranged by integers
  with coordinates, and ranged by \<open>NaN\<close> with undefined coordinates.
\<close>

lemma makeNode_None: "makeNode e ty None as = Inr (Node ty None None None True None as)"
  by (simp add: makeNode_def)

lemma makeNode_Located:
  assumes "makeNode e ty (Some (Located l)) as = Inr n"
  shows "\<exists>r0 r1.
           foldE expandRange
             (Number (mapper e (first_line l) (first_column l)),
              Number (mapper e (last_line l) (last_column l) + 1))
             (map snd as) = Inr (Number r0, Number r1) \<and>
           n = Node ty (Some (Number (first_line l + 1))) (Some (Number (first_column l + 1)))
                 (Some (Number (if r0 < 0 then 0 else r0),
                        Number (if r1 > int (length (source e)) then int (length (source e))
                                else r1)))
                 False
                 (Some (slice (source e) (if r0 < 0 then 0 else r0)
                          (if r1 > int (length (source e)) then int (length (source e)) else r1)))
                 as"
proof -
  let ?start = "(Number (mapper e (first_line l) (first_column l)),
                 Number (mapper e (last_line l) (last_column l) + 1))"
  from assms obtain r where r: "foldE expandRange ?start (map snd as) = Inr r"
    by (auto simp: makeNode_def bindE_def Let_def split: sum.splits)
  from foldE_expandRange_result [OF r] obtain r0 r1 where "r = (Number r0, Number r1)" by blast
  with r assms show ?thesis by (auto simp: makeNode_def bindE_def Let_def)
qed

lemma makeNode_Unlocated:
  assumes "makeNode e ty (Some Unlocated) as = Inr n"
  shows "n = Node ty (Some NaN) (Some NaN) (Some (NaN, NaN)) False (Some []) as"
proof -
  from assms obtain r where r: "foldE expandRange (NaN, NaN) (map snd as) = Inr r"
    by (auto simp: makeNode_def bindE_def Let_def split: sum.splits)
  from foldE_expandRange_NaN [OF r] have "r = (NaN, NaN)" .
  with r assms show ?thesis by (simp add: makeNode_def bindE_def Let_def slice_def)
qed

lemma makeNode_cases:
  assumes "makeNode e ty loc as = Inr n"
  obtains "loc = None" "n = Node ty None None None True None as"
  | l where "loc = Some (Located l)" "makeNode e ty (Some (Located l)) as = Inr n"
  | "loc = Some Unlocated" "n = Node ty (Some NaN) (Some NaN) (Some (NaN, NaN)) False (Some []) as"
proof (cases loc)
  case None
  with assms that(1) show ?thesis by (simp add: makeNode_None)
next
  case (Some obj)
  show ?thesis
  proof (cases obj)
    case (Located l)
    with Some assms that(2) show ?thesis by simp
  next
    case Unlocated
    with Some assms makeNode_Unlocated [of e ty as n] that(3) show ?thesis by simp
  qed
qed

lemma makeNode_attrs: "makeNode e ty loc as = Inr n \<Longrightarrow> attrs n = as"
  by (erule makeNode_cases) (auto dest: makeNode_Located)

lemma makeNode_type: "makeNode e ty loc as = Inr n \<Longrightarrow> ntype n = ty"
  by (erule makeNode_cases) (auto dest: makeNode_Located)

lemma makeNode_virtual_iff: "makeNode e ty loc as = Inr n \<Longrightarrow> virtual n = (nrange n = None)"
  by (erule makeNode_cases) (auto dest: makeNode_Located)

lemma makeNode_virtual_loc:
  assumes "makeNode e ty loc as = Inr n"
  shows "virtual n = (loc = None) \<and>
         (loc = None \<longrightarrow> line n = None \<and> column n = None \<and> nrange n = None \<and> raw n = None) \<and>
         (loc \<noteq> None \<longrightarrow> nrange n \<noteq> None)"
  using assms by (rule makeNode_cases) (auto dest: makeNode_Located)

lemma makeNode_of_nodes:
  "\<exists>n. makeNode e ty loc [(k1, ANode x)] = Inr n \<and> ntype n = ty"
  "\<exists>n. makeNode e ty loc [(k1, ANode x), (k2, ANode y)] = Inr n \<and> ntype n = ty"
proof -
  have w: "\<exists>r'. widen r [Some m] = Inr r'" for r m
    by (cases r) simp
  have x: "\<exists>r'. expandRange r (ANode z) = Inr r'" for r z
    using w by (cases z) auto
  have 1: "\<exists>r'. foldE expandRange r [ANode x] = Inr r'" for r
    using x [of r x] by (auto simp: bindE_def)
  have 2: "\<exists>r'. foldE expandRange r [ANode x, ANode y] = Inr r'" for r
  proof -
    from x [of r x] obtain r1 where r1: "expandRange r (ANode x) = Inr r1" ..
    from x [of r1 y] obtain r2 where "expandRange r1 (ANode y) = Inr r2" ..
    with r1 show ?thesis by (simp add: bindE_def)
  qed
  show "\<exists>n. makeNode e ty loc [(k1, ANode x)] = Inr n \<and> ntype n = ty"
  proof (cases loc)
    case None
    then show ?thesis by (simp add: makeNode_None)
  next
    case (Some l)
    obtain r' where "foldE expandRange
        (case l of Located s \<Rightarrow> Number (mapper e (first_line s) (first_column s)) | Unlocated \<Rightarrow> NaN,
         case l of Located s \<Rightarrow> Number (mapper e (last_line s) (last_column s) + 1) | Unlocated \<Rightarrow> NaN)
        [ANode x] = Inr r'"
      using 1 by blast
    with Some show ?thesis
      by (cases r') (simp add: makeNode_def Let_def bindE_def)
  qed
  show "\<exists>n. makeNode e ty loc [(k1, ANode x), (k2, ANode y)] = Inr n \<and> ntype n = ty"
  proof (cases loc)
    case None
    then show ?thesis by (simp add: makeNode_None)
  next
    case (Some l)
    obtain r' where "foldE expandRange
        (case l of Located s \<Rightarrow> Number (mapper e (first_line s) (first_column s)) | Unlocated \<Rightarrow> NaN,
         case l of Located s \<Rightarrow> Number (mapper e (last_line s) (last_column s) + 1) | Unlocated \<Rightarrow> NaN)
        [ANode x, ANode y] = Inr r'"
      using 2 by blast
    with Some show ?thesis
      by (cases r') (simp add: makeNode_def Let_def bindE_def)
  qed
qed

text \<open>
  With coordinates the range lies within the source and \<open>raw\<close> is the slice at the range;
  in every case \<open>raw\<close> is what \<open>slice\<close> gives at the stored range.
\<close>

lemma makeNode_Located_bounds:
  assumes "makeNode e ty (Some (Located l)) as = Inr n"
  shows "\<exists>r0 r1. \<not> virtual n \<and> nrange n = Some (Number r0, Number r1) \<and>
                 0 \<le> r0 \<and> r1 \<le> int (length (source e)) \<and>
                 raw n = Some (slice (source e) r0 r1)"
  using makeNode_Located [OF assms] by auto

lemma makeNode_reslice:
  assumes "makeNode e ty loc as = Inr n" and "\<not> virtual n"
  shows "\<exists>r0 r1. nrange n = Some (r0, r1) \<and>
                 raw n = Some (slice (source e) (toInteger r0) (toInteger r1))"
  using assms(1)
proof (cases rule: makeNode_cases)
  case 1
  with assms(2) show ?thesis by simp
next
  case (2 l)
  from makeNode_Located [OF 2(2)] show ?thesis by auto
next
  case 3
  then show ?thesis by (simp add: slice_def)
qed

lemma slice_within:
  "0 \<le> a \<Longrightarrow> a \<le> b \<Longrightarrow> b \<le> int (length s) \<Longrightarrow>
   slice s a b = take (nat (b - a)) (drop (nat a) s)"
  by (simp add: slice_def Let_def)

lemma makeNode_eval:
  "makeNode e ty (Some (Located l)) as =
     bindE (foldE expandRange
              (Number (mapper e (first_line l) (first_column l)),
               Number (mapper e (last_line l) (last_column l) + 1))
              (map snd as)) (\<lambda>r.
       if less_number (fst r) (Number 0) \<or> less_number (Number (int (length (source e)))) (snd r)
       then
         Inr (Node ty (Some (Number (first_line l + 1))) (Some (Number (first_column l + 1)))
                (Some (if less_number (fst r) (Number 0) then Number 0 else fst r,
                       if less_number (Number (int (length (source e)))) (snd r)
                       then Number (int (length (source e))) else snd r))
                False
                (Some (slice (source e)
                         (toInteger (if less_number (fst r) (Number 0) then Number 0 else fst r))
                         (toInteger (if less_number (Number (int (length (source e)))) (snd r)
                                     then Number (int (length (source e))) else snd r))))
                as)
       else
         Inr (Node ty (Some (Number (first_line l + 1))) (Some (Number (first_column l + 1)))
                (Some r) False
                (Some (slice (source e) (toInteger (fst r)) (toInteger (snd r)))) as))"
  by (auto simp: makeNode_def bindE_def Let_def split: sum.splits prod.splits)

lemma makeNode_eval_Unlocated:
  "makeNode e ty (Some Unlocated) as =
     bindE (foldE expandRange (NaN, NaN) (map snd as)) (\<lambda>r.
       Inr (Node ty (Some NaN) (Some NaN) (Some (NaN, NaN)) False (Some []) as))"
proof (cases "foldE expandRange (NaN, NaN) (map snd as)")
  case (Inl err)
  then show ?thesis by (simp add: makeNode_def bindE_def Let_def)
next
  case (Inr r)
  from foldE_expandRange_NaN [OF Inr] Inr show ?thesis
    by (simp add: makeNode_def bindE_def Let_def slice_def)
qed

lemma ex_leaf_a:
  "makeNode (singleLine ''a + b'' ls) (Some ''Identifier'') (Some (Located (span 0 0 0 0)))
     [(''data'', AData (JString ''a''))] = Inr (leaf ''Identifier'' 0 ''a'')"
  by (simp add: makeNode_eval singleLine_simps span_def leaf_def bindE_def slice_within)

lemma ex_leaf_b:
  "makeNode (singleLine ''a + b'' ls) (Some ''Identifier'') (Some (Located (span 0 4 0 4)))
     [(''data'', AData (JString ''b''))] = Inr (leaf ''Identifier'' 4 ''b'')"
  by (simp add: makeNode_eval singleLine_simps span_def leaf_def bindE_def slice_within)

lemma ex_plus_built:
  "makeNode (singleLine ''a + b'' ls) (Some ''PlusOp'') (Some (Located (span 0 2 0 2)))
     [(''left'', ANode (Some (leaf ''Identifier'' 0 ''a''))),
      (''right'', ANode (Some (leaf ''Identifier'' 4 ''b'')))] = Inr ex_plus"
  by (simp add: makeNode_eval singleLine_simps span_def leaf_def bindE_def slice_within ex_plus_def)

lemma ex_block_built:
  "makeNode (singleLine ''a + b'' ls) (Some ''Block'') (Some (Located (span 0 2 0 2)))
     [(''statements'', ANodes [Some ex_plus])] = Inr ex_block"
  by (simp add: makeNode_eval singleLine_simps span_def bindE_def slice_within ex_plus_def
      ex_block_def)

lemma ex_built:
  "built (singleLine ''a + b'' ls) (leaf ''Identifier'' 0 ''a'')"
  "built (singleLine ''a + b'' ls) (leaf ''Identifier'' 4 ''b'')"
  "built (singleLine ''a + b'' ls) ex_plus"
  "built (singleLine ''a + b'' ls) ex_block"
proof -
  show a: "built (singleLine ''a + b'' ls) (leaf ''Identifier'' 0 ''a'')"
    by (rule built_makeNode [OF ex_leaf_a]) (simp add: children_of_def)
  show b: "built (singleLine ''a + b'' ls) (leaf ''Identifier'' 4 ''b'')"
    by (rule built_makeNode [OF ex_leaf_b]) (simp add: children_of_def)
  show p: "built (singleLine ''a + b'' ls) ex_plus"
    by (rule built_makeNode [OF ex_plus_built]) (simp add: children_of_def a b)
  show "built (singleLine ''a + b'' ls) ex_block"
    by (rule built_makeNode [OF ex_block_built]) (simp add: children_of_def p)
qed

lemma ex_descendant: "ranged_descendant ex_block (leaf ''Identifier'' 0 ''a'')"
proof (rule ranged_below)
  show "ex_plus \<in> set (children ex_block)"
    by (simp add: children_def children_of_def ex_block_def)
  show "numeric (nrange ex_plus)" by (simp add: ex_plus_def)
  show "ranged_descendant ex_plus (leaf ''Identifier'' 0 ''a'')"
    by (rule ranged_child) (simp add: children_def children_of_def ex_plus_def)
qed

text \<open>
  The two nodes of the source \<open># c\<close>, as the builder returns them at the location object
  of the root.
\<close>

lemma commentOnly_simps:
  "source commentOnly = ''# c''"
  "locs commentOnly a = span 0 0 0 0"
  "unlocated commentOnly a = (a = 0)"
  by (simp_all add: commentOnly_def)

lemma ex_comment_block_built:
  "makeNode commentOnly (Some ''Block'') (locationObject commentOnly ex_comment)
     [(''statements'', ANodes [])] = Inr ex_comment_block"
  by (simp add: locationObject_def ex_comment_def commentOnly_simps makeNode_eval_Unlocated
      bindE_def ex_comment_block_def)

lemma ex_comment_program_built:
  "makeNode commentOnly (Some ''Program'') (locationObject commentOnly ex_comment)
     [(''body'', ANode (Some ex_comment_block))] = Inr ex_comment_program"
  by (simp add: locationObject_def ex_comment_def commentOnly_simps makeNode_eval_Unlocated
      bindE_def ex_comment_block_def ex_comment_program_def)

lemma ex_comment_converts: "convert commentOnly ex_comment [] = Inr (Some ex_comment_program)"
  using ex_comment_block_built ex_comment_program_built
  by (simp add: ex_comment_def convert.simps bindE_def returnNode_def)

lemma ex_comment_parses:
  "parse (\<lambda>src. Inr ex_comment) commentOnly = Inr (Some ex_comment_program)"
  by (simp add: parse_def commentOnly_simps bindE_def ex_comment_converts)

text \<open>
  The empty source is answered with a node whose range lies within the source and whose
  \<open>raw\<close> is the slice at that range.
\<close>

lemma parse_empty_source:
  assumes "source e = []"
  shows "\<exists>n. parse csParse e = Inr (Some n) \<and> \<not> virtual n \<and>
           nrange n = Some (Number 0, Number 0) \<and> raw n = Some (slice (source e) 0 0)"
  using assms by (simp add: parse_def slice_def)

text \<open>
  C5. A node built at a location object with coordinates is not virtual, its range is a
  pair of integers \<open>(r0, r1)\<close> with \<open>0 \<le> r0\<close> and \<open>r1 \<le> length source\<close>, and its \<open>raw\<close> is the
  slice of the source at that range. A node built at a location object whose coordinates
  are \<open>undefined\<close> is not virtual either, and there the bounds fail: its range is
  \<open>(NaN, NaN)\<close>, which the clamping leaves as it is, so neither \<open>0 <= range[0]\<close> nor
  \<open>range[1] <= source.length\<close> holds; its \<open>raw\<close> is the empty string. In every case slicing
  the source again at the stored range gives \<open>raw\<close>.
\<close>

theorem makeNode_raw_is_slice:
  "(makeNode e ty (Some (Located l)) as = Inr n \<longrightarrow>
      (\<exists>r0 r1. \<not> virtual n \<and> nrange n = Some (Number r0, Number r1) \<and>
               0 \<le> r0 \<and> r1 \<le> int (length (source e)) \<and>
               raw n = Some (slice (source e) r0 r1))) \<and>
   (makeNode e ty (Some Unlocated) as = Inr n \<longrightarrow>
      \<not> virtual n \<and> nrange n = Some (NaN, NaN) \<and> raw n = Some [] \<and>
      (\<forall>r0 r1. nrange n = Some (r0, r1) \<longrightarrow>
         \<not> le_number (Number 0) r0 \<and> \<not> le_number r1 (Number (int (length (source e)))))) \<and>
   (makeNode e ty loc as = Inr n \<and> \<not> virtual n \<longrightarrow>
      (\<exists>r0 r1. nrange n = Some (r0, r1) \<and>
               raw n = Some (slice (source e) (toInteger r0) (toInteger r1))))"
proof -
  have located: "makeNode e ty (Some (Located l)) as = Inr n \<longrightarrow>
      (\<exists>r0 r1. \<not> virtual n \<and> nrange n = Some (Number r0, Number r1) \<and>
               0 \<le> r0 \<and> r1 \<le> int (length (source e)) \<and>
               raw n = Some (slice (source e) r0 r1))"
    by (rule impI) (rule makeNode_Located_bounds)
  have unlocated: "makeNode e ty (Some Unlocated) as = Inr n \<longrightarrow>
      \<not> virtual n \<and> nrange n = Some (NaN, NaN) \<and> raw n = Some [] \<and>
      (\<forall>r0 r1. nrange n = Some (r0, r1) \<longrightarrow>
         \<not> le_number (Number 0) r0 \<and> \<not> le_number r1 (Number (int (length (source e)))))"
    by (auto dest: makeNode_Unlocated)
  have reslice: "makeNode e ty loc as = Inr n \<and> \<not> virtual n \<longrightarrow>
      (\<exists>r0 r1. nrange n = Some (r0, r1) \<and>
               raw n = Some (slice (source e) (toInteger r0) (toInteger r1)))"
    by (auto dest: makeNode_reslice)
  show ?thesis
    by (rule conjI, rule located, rule conjI, rule unlocated, rule reslice)
qed

text \<open>
  The node of \<open>a + b\<close>, built at the span of the operator around its two operands, and the
  \<open>Block\<close> node of the source \<open># c\<close>, built at the location object of the root.
\<close>

theorem makeNode_raw_is_slice_witness:
  "makeNode (singleLine ''a + b'' (\<lambda>_. span 0 0 0 0)) (Some ''PlusOp'')
     (Some (Located (span 0 2 0 2)))
     [(''left'', ANode (Some (leaf ''Identifier'' 0 ''a''))),
      (''right'', ANode (Some (leaf ''Identifier'' 4 ''b'')))] = Inr ex_plus \<and>
   (\<exists>r0 r1. \<not> virtual ex_plus \<and> nrange ex_plus = Some (Number r0, Number r1) \<and>
            0 \<le> r0 \<and> r1 \<le> 5 \<and> raw ex_plus = Some (slice ''a + b'' r0 r1)) \<and>
   parse (\<lambda>src. Inr ex_comment) commentOnly = Inr (Some ex_comment_program) \<and>
   map_of (attrs ex_comment_program) ''body'' = Some (ANode (Some ex_comment_block)) \<and>
   locationObject commentOnly ex_comment = Some Unlocated \<and>
   makeNode commentOnly (Some ''Block'') (Some Unlocated) [(''statements'', ANodes [])]
     = Inr ex_comment_block \<and>
   \<not> virtual ex_comment_block \<and> nrange ex_comment_block = Some (NaN, NaN) \<and>
   raw ex_comment_block = Some [] \<and>
   \<not> le_number (Number 0) NaN \<and> \<not> le_number NaN (Number 3)"
proof -
  let ?e = "singleLine ''a + b'' (\<lambda>_. span 0 0 0 0)"
  have o: "locationObject commentOnly ex_comment = Some Unlocated"
    by (simp add: locationObject_def ex_comment_def commentOnly_simps)
  have b: "makeNode commentOnly (Some ''Block'') (Some Unlocated) [(''statements'', ANodes [])]
      = Inr ex_comment_block"
    using ex_comment_block_built by (simp add: o)
  have v: "\<not> virtual ex_plus" by (simp add: ex_plus_def)
  from makeNode_raw_is_slice [of ?e "Some ''PlusOp''" "span 0 2 0 2" _ ex_plus "Some (Located (span 0 2 0 2))"]
    ex_plus_built [of "\<lambda>_. span 0 0 0 0"]
  have 1: "\<exists>r0 r1. \<not> virtual ex_plus \<and> nrange ex_plus = Some (Number r0, Number r1) \<and>
            0 \<le> r0 \<and> r1 \<le> 5 \<and> raw ex_plus = Some (slice ''a + b'' r0 r1)"
    by (simp add: singleLine_simps)
  from makeNode_raw_is_slice [of commentOnly "Some ''Block''" "span 0 0 0 0"
      "[(''statements'', ANodes [])]" ex_comment_block "Some Unlocated"] b
  have 2: "\<not> virtual ex_comment_block \<and> nrange ex_comment_block = Some (NaN, NaN) \<and>
      raw ex_comment_block = Some []"
    by blast
  have p: "map_of (attrs ex_comment_program) ''body'' = Some (ANode (Some ex_comment_block))"
    by (simp add: ex_comment_program_def)
  from ex_plus_built [of "\<lambda>_. span 0 0 0 0"] 1 ex_comment_parses p o b 2 show ?thesis by simp
qed

text \<open>
  Containment for the children of a node built with coordinates, and along chains of
  nodes with numeric ranges.
\<close>

lemma makeNode_contains_child:
  assumes "makeNode e ty (Some (Located l)) as = Inr p" and "c \<in> set (children_of as)"
    and "nrange c = Some (Number c0, Number c1)" and "0 \<le> c0" and "c1 \<le> int (length (source e))"
  shows "\<exists>p0 p1. nrange p = Some (Number p0, Number p1) \<and> p0 \<le> c0 \<and> c1 \<le> p1"
proof -
  from makeNode_Located [OF assms(1)] obtain r0 r1 where
    fold: "foldE expandRange
             (Number (mapper e (first_line l) (first_column l)),
              Number (mapper e (last_line l) (last_column l) + 1))
             (map snd as) = Inr (Number r0, Number r1)"
    and p: "nrange p = Some (Number (if r0 < 0 then 0 else r0),
                             Number (if r1 > int (length (source e)) then int (length (source e))
                                     else r1))"
    by auto
  from assms(2) obtain a where a: "a \<in> set (map snd as)" "c \<in> set (attr_nodes a)"
    by (auto simp: children_of_def)
  from foldE_expandRange_result [OF fold] a assms(3) have "r0 \<le> c0 \<and> c1 \<le> r1"
    by fastforce
  with p assms(4,5) show ?thesis by auto
qed

lemma makeNode_contains_span:
  assumes "makeNode e ty (Some (Located l)) as = Inr p"
  shows "\<exists>p0 p1. nrange p = Some (Number p0, Number p1) \<and>
           p0 \<le> max 0 (mapper e (first_line l) (first_column l)) \<and>
           min (int (length (source e))) (mapper e (last_line l) (last_column l) + 1) \<le> p1"
proof -
  from makeNode_Located [OF assms] obtain r0 r1 where
    fold: "foldE expandRange
             (Number (mapper e (first_line l) (first_column l)),
              Number (mapper e (last_line l) (last_column l) + 1))
             (map snd as) = Inr (Number r0, Number r1)"
    and p: "nrange p = Some (Number (if r0 < 0 then 0 else r0),
                             Number (if r1 > int (length (source e)) then int (length (source e))
                                     else r1))"
    by auto
  from foldE_expandRange_result [OF fold]
  have "r0 \<le> mapper e (first_line l) (first_column l) \<and>
        mapper e (last_line l) (last_column l) + 1 \<le> r1"
    by auto
  with p show ?thesis by auto
qed

lemma built_in_bounds:
  assumes "built e n" and "nrange n = Some (Number r0, Number r1)"
  shows "0 \<le> r0 \<and> r1 \<le> int (length (source e))"
  using assms(1)
proof (cases rule: built.cases)
  case (built_makeNode ty loc as)
  from built_makeNode(1) show ?thesis
  proof (cases rule: makeNode_cases)
    case 1
    with assms(2) show ?thesis by simp
  next
    case (2 l)
    from makeNode_Located_bounds [OF 2(2)] assms(2) show ?thesis by auto
  next
    case 3
    with assms(2) show ?thesis by simp
  qed
qed

lemma built_child: "built e p \<Longrightarrow> c \<in> set (children p) \<Longrightarrow> built e c"
  by (erule built.cases) (auto simp: children_def dest: makeNode_attrs)

lemma built_child_contained:
  assumes "built e p" and "c \<in> set (children p)"
    and "nrange p = Some (Number p0, Number p1)" and "nrange c = Some (Number c0, Number c1)"
  shows "p0 \<le> c0 \<and> c1 \<le> p1"
  using assms(1)
proof (cases rule: built.cases)
  case (built_makeNode ty loc as)
  from makeNode_attrs [OF built_makeNode(1)] assms(2) have c: "c \<in> set (children_of as)"
    by (simp add: children_def)
  from built_child [OF assms(1,2)] assms(4) have b: "0 \<le> c0 \<and> c1 \<le> int (length (source e))"
    by (rule built_in_bounds)
  from built_makeNode(1) have "\<exists>l. makeNode e ty (Some (Located l)) as = Inr p"
  proof (cases rule: makeNode_cases)
    case 1
    with assms(3) show ?thesis by simp
  next
    case (2 l)
    then show ?thesis by blast
  next
    case 3
    with assms(3) show ?thesis by simp
  qed
  then obtain l where "makeNode e ty (Some (Located l)) as = Inr p" ..
  from makeNode_contains_child [OF this c assms(4)] b assms(3) show ?thesis by auto
qed

lemma numeric_range: "numeric r \<Longrightarrow> \<exists>a b. r = Some (Number a, Number b)"
  by (cases r rule: numeric.cases) auto

lemma built_ranged_descendant_contained:
  assumes "ranged_descendant p d" and "built e p"
    and "nrange p = Some (Number p0, Number p1)" and "nrange d = Some (Number d0, Number d1)"
  shows "p0 \<le> d0 \<and> d1 \<le> p1"
  using assms
proof (induction arbitrary: p0 p1 rule: ranged_descendant.induct)
  case (ranged_child c p)
  then show ?case by (auto dest: built_child_contained)
next
  case (ranged_below c p d)
  from numeric_range [OF ranged_below.hyps(2)] obtain c0 c1 where
    c: "nrange c = Some (Number c0, Number c1)" by auto
  from built_child [OF ranged_below.prems(1) ranged_below.hyps(1)] have bc: "built e c" .
  from ranged_below.IH [OF bc c ranged_below.prems(3)] have "c0 \<le> d0 \<and> d1 \<le> c1" .
  moreover from built_child_contained [OF ranged_below.prems(1) ranged_below.hyps(1) ranged_below.prems(2) c]
  have "p0 \<le> c0 \<and> c1 \<le> p1" .
  ultimately show ?case by simp
qed

text \<open>
  C4. A node built at a location object with coordinates has a range of two integers that
  contains its own span as far as it lies in the source, and the range of every node
  among its attributes whose range is numeric and lies within the source (as every
  numeric range the builder produces does); in a built tree the numeric range of a node
  contains the numeric range of every descendant reached through nodes with numeric
  ranges. A node built at a location object whose coordinates are \<open>undefined\<close> has the
  range \<open>(NaN, NaN)\<close>, and there the containment fails: for no range \<open>(k0, k1)\<close> does
  \<open>range[0] <= k0\<close> or \<open>k1 <= range[1]\<close> hold.
\<close>

theorem makeNode_range_contains:
  "(makeNode e ty (Some (Located l)) as = Inr p \<longrightarrow>
      (\<exists>p0 p1. nrange p = Some (Number p0, Number p1) \<and>
         p0 \<le> max 0 (mapper e (first_line l) (first_column l)) \<and>
         min (int (length (source e))) (mapper e (last_line l) (last_column l) + 1) \<le> p1 \<and>
         (\<forall>c c0 c1. c \<in> set (children_of as) \<and> nrange c = Some (Number c0, Number c1) \<and>
            0 \<le> c0 \<and> c1 \<le> int (length (source e)) \<longrightarrow> p0 \<le> c0 \<and> c1 \<le> p1))) \<and>
   (built e q \<and> ranged_descendant q d \<and>
    nrange q = Some (Number q0, Number q1) \<and> nrange d = Some (Number d0, Number d1) \<longrightarrow>
      q0 \<le> d0 \<and> d1 \<le> q1) \<and>
   (makeNode e ty (Some Unlocated) as = Inr u \<and> nrange k = Some (k0, k1) \<longrightarrow>
      (\<exists>u0 u1. nrange u = Some (u0, u1) \<and> \<not> le_number u0 k0 \<and> \<not> le_number k1 u1))"
proof -
  have children: "makeNode e ty (Some (Located l)) as = Inr p \<longrightarrow>
      (\<exists>p0 p1. nrange p = Some (Number p0, Number p1) \<and>
         p0 \<le> max 0 (mapper e (first_line l) (first_column l)) \<and>
         min (int (length (source e))) (mapper e (last_line l) (last_column l) + 1) \<le> p1 \<and>
         (\<forall>c c0 c1. c \<in> set (children_of as) \<and> nrange c = Some (Number c0, Number c1) \<and>
            0 \<le> c0 \<and> c1 \<le> int (length (source e)) \<longrightarrow> p0 \<le> c0 \<and> c1 \<le> p1))"
  proof
    assume m: "makeNode e ty (Some (Located l)) as = Inr p"
    from makeNode_contains_span [OF m] obtain p0 p1 where
      p: "nrange p = Some (Number p0, Number p1)"
      and own: "p0 \<le> max 0 (mapper e (first_line l) (first_column l))"
        "min (int (length (source e))) (mapper e (last_line l) (last_column l) + 1) \<le> p1"
      by blast
    have "p0 \<le> c0 \<and> c1 \<le> p1"
      if "c \<in> set (children_of as) \<and> nrange c = Some (Number c0, Number c1) \<and>
          0 \<le> c0 \<and> c1 \<le> int (length (source e))" for c c0 c1
      using makeNode_contains_child [OF m, of c c0 c1] that p by auto
    with p own show "\<exists>p0 p1. nrange p = Some (Number p0, Number p1) \<and>
         p0 \<le> max 0 (mapper e (first_line l) (first_column l)) \<and>
         min (int (length (source e))) (mapper e (last_line l) (last_column l) + 1) \<le> p1 \<and>
         (\<forall>c c0 c1. c \<in> set (children_of as) \<and> nrange c = Some (Number c0, Number c1) \<and>
            0 \<le> c0 \<and> c1 \<le> int (length (source e)) \<longrightarrow> p0 \<le> c0 \<and> c1 \<le> p1)"
      by blast
  qed
  have chain: "built e q \<and> ranged_descendant q d \<and>
      nrange q = Some (Number q0, Number q1) \<and> nrange d = Some (Number d0, Number d1) \<longrightarrow>
      q0 \<le> d0 \<and> d1 \<le> q1"
    using built_ranged_descendant_contained by blast
  have unlocated: "makeNode e ty (Some Unlocated) as = Inr u \<and> nrange k = Some (k0, k1) \<longrightarrow>
      (\<exists>u0 u1. nrange u = Some (u0, u1) \<and> \<not> le_number u0 k0 \<and> \<not> le_number k1 u1)"
    by (auto dest: makeNode_Unlocated)
  show ?thesis
    by (rule conjI, rule children, rule conjI, rule chain, rule unlocated)
qed

text \<open>
  The node of \<open>a + b\<close> contains its left operand, and so does the block around it. The
  \<open>Program\<close> node of the source \<open># c\<close> does not contain its \<open>Block\<close> node.
\<close>

theorem makeNode_range_contains_witness:
  "(\<exists>p0 p1. nrange ex_plus = Some (Number p0, Number p1) \<and> p0 \<le> 0 \<and> 1 \<le> p1) \<and>
   nrange (leaf ''Identifier'' 0 ''a'') = Some (Number 0, Number 1) \<and>
   built (singleLine ''a + b'' (\<lambda>_. span 0 0 0 0)) ex_block \<and>
   ranged_descendant ex_block (leaf ''Identifier'' 0 ''a'') \<and>
   nrange ex_block = Some (Number 0, Number 5) \<and>
   parse (\<lambda>src. Inr ex_comment) commentOnly = Inr (Some ex_comment_program) \<and>
   makeNode commentOnly (Some ''Program'') (Some Unlocated)
     [(''body'', ANode (Some ex_comment_block))] = Inr ex_comment_program \<and>
   ex_comment_block \<in> set (children ex_comment_program) \<and>
   nrange ex_comment_block = Some (NaN, NaN) \<and>
   (\<exists>u0 u1. nrange ex_comment_program = Some (u0, u1) \<and>
            \<not> le_number u0 NaN \<and> \<not> le_number NaN u1)"
proof -
  let ?e = "singleLine ''a + b'' (\<lambda>_. span 0 0 0 0)"
  let ?a = "leaf ''Identifier'' 0 ''a''"
  let ?as = "[(''left'', ANode (Some ?a)), (''right'', ANode (Some (leaf ''Identifier'' 4 ''b'')))]"
  have c: "?a \<in> set (children_of ?as)"
    by (simp add: children_of_def)
  have r: "nrange ?a = Some (Number 0, Number 1)" by (simp add: leaf_def)
  have b: "(0::int) \<le> 0 \<and> 1 \<le> int (length (source ?e))" by (simp add: singleLine_simps)
  have q: "nrange ex_block = Some (Number 0, Number 5)" by (simp add: ex_block_def)
  have pr: "nrange ex_plus = Some (Number 0, Number 5)" by (simp add: ex_plus_def)
  have o: "locationObject commentOnly ex_comment = Some Unlocated"
    by (simp add: locationObject_def ex_comment_def commentOnly_simps)
  have u: "makeNode commentOnly (Some ''Program'') (Some Unlocated)
      [(''body'', ANode (Some ex_comment_block))] = Inr ex_comment_program"
    using ex_comment_program_built by (simp add: o)
  have k: "nrange ex_comment_block = Some (NaN, NaN)" by (simp add: ex_comment_block_def)
  have ch: "ex_comment_block \<in> set (children ex_comment_program)"
    by (simp add: children_def children_of_def ex_comment_program_def)
  from makeNode_range_contains [of ?e "Some ''PlusOp''" "span 0 2 0 2" ?as ex_plus
      ex_block ?a 0 5 0 1]
    ex_plus_built [of "\<lambda>_. span 0 0 0 0"] c r b
  have 1: "\<exists>p0 p1. nrange ex_plus = Some (Number p0, Number p1) \<and> p0 \<le> 0 \<and> 1 \<le> p1"
    by blast
  from makeNode_range_contains [of commentOnly "Some ''Program''" "span 0 0 0 0"
      "[(''body'', ANode (Some ex_comment_block))]" _ _ _ _ _ _ _ ex_comment_program
      ex_comment_block NaN NaN] u k
  have 2: "\<exists>u0 u1. nrange ex_comment_program = Some (u0, u1) \<and>
            \<not> le_number u0 NaN \<and> \<not> le_number NaN u1"
    by blast
  from 1 r ex_built(4) [of "\<lambda>_. span 0 0 0 0"] ex_descendant q ex_comment_parses u ch k 2
  show ?thesis by blast
qed

section \<open>Properties of the converter\<close>

text \<open>
  The ancestors of a conversion only matter by being empty or not: they are handed down
  and never read otherwise.
\<close>

lemma bindE_cong_l:
  "m = m' \<Longrightarrow> (\<And>x. m = Inr x \<Longrightarrow> f x = g x) \<Longrightarrow> bindE m f = bindE m' g"
  by (auto simp: bindE_def split: sum.splits)

lemma mapE_cong_l:
  "(\<And>x. x \<in> set xs \<Longrightarrow> f x = g x) \<Longrightarrow> mapE f xs = mapE g xs"
  by (rule mapE_cong) auto

lemma foldE_cong_l:
  "(\<And>acc x. x \<in> set xs \<Longrightarrow> f acc x = g acc x) \<Longrightarrow> foldE f a xs = foldE g a xs"
  by (rule foldE_cong) auto

lemma ancestors_irrelevant:
  shows "anc \<noteq> [] \<longrightarrow> (\<forall>anc'. anc' \<noteq> [] \<longrightarrow> convert e node anc = convert e node anc')"
  and "\<forall>anc'. convertOperator e op anc2 = convertOperator e op anc'"
  and "\<forall>node' anc'. accessOpForProperty e node3 anc3 ex0 pr loc =
         accessOpForProperty e node' anc' ex0 pr loc"
  and "\<forall>node' anc'. convertCase e node4 anc4 c = convertCase e node' anc' c"
  and "\<forall>node' anc'. classStatement e node5 anc5 st5 expr = classStatement e node' anc' st5 expr"
  and "\<forall>node' anc'. classProperty e node6 anc6 st6 property =
         classProperty e node' anc' st6 property"
proof (induction e node anc and e op anc2 and e node3 anc3 ex0 pr loc and e node4 anc4 c
    and e node5 anc5 st5 expr and e node6 anc6 st6 property
    rule: convert_convertOperator_accessOpForProperty_convertCase_classStatement_classProperty.induct)
  case (1 e node)
  then show ?case by simp
next
  case (2 e l base properties a as)
  show ?case
  proof (intro impI allI)
    fix anc' :: "cs_node list" assume "anc' \<noteq> []"
    then obtain b bs where anc': "anc' = b # bs" by (cases anc') auto
    show "convert e (CsValue l base properties) (a # as) = convert e (CsValue l base properties) anc'"
      unfolding anc' convert.simps Let_def
      using 2 [OF refl refl]
      apply -
      apply (rule bindE_cong_l)
       apply simp
      apply (rule foldE_cong_l)
      apply blast
      done
  qed
next
  case (3 e l v a as)
  show ?case
  proof (intro impI allI)
    fix anc' :: "cs_node list" assume "anc' \<noteq> []"
    then obtain b bs where anc': "anc' = b # bs" by (cases anc') auto
    show "convert e (CsLiteral l v) (a # as) = convert e (CsLiteral l v) anc'"
      unfolding anc' convert.simps Let_def
      using 3
      by (auto simp: convert.simps)
  qed
next
  case (4 e l variable args a as)
  show ?case
  proof (intro impI allI)
    fix anc' :: "cs_node list" assume "anc' \<noteq> []"
    then obtain b bs where anc': "anc' = b # bs" by (cases anc') auto
    show "convert e (CsCall l variable args) (a # as) = convert e (CsCall l variable args) anc'"
      unfolding anc' convert.simps Let_def
      using 4 [OF refl refl]
      by (auto intro!: bindE_cong_l mapE_cong_l foldE_cong_l split: option.splits)
  qed
next
  case (5 e l operator first second a as)
  show ?case
  proof (intro impI allI)
    fix anc' :: "cs_node list" assume "anc' \<noteq> []"
    then obtain b bs where anc': "anc' = b # bs" by (cases anc') auto
    show "convert e (CsOp l operator first second) (a # as) = convert e (CsOp l operator first second) anc'"
      unfolding anc' convert.simps Let_def
      using 5
      by (auto simp: convert.simps)
  qed
next
  case (6 e l ctx variable val a as)
  show ?case
  proof (intro impI allI)
    fix anc' :: "cs_node list" assume "anc' \<noteq> []"
    then obtain b bs where anc': "anc' = b # bs" by (cases anc') auto
    show "convert e (CsAssign l ctx variable val) (a # as) = convert e (CsAssign l ctx variable val) anc'"
      unfolding anc' convert.simps Let_def
      using 6 [OF refl refl]
      by (auto intro!: bindE_cong_l mapE_cong_l foldE_cong_l split: option.splits)
  qed
next
  case (7 e l properties a as)
  show ?case
  proof (intro impI allI)
    fix anc' :: "cs_node list" assume "anc' \<noteq> []"
    then obtain b bs where anc': "anc' = b # bs" by (cases anc') auto
    show "convert e (CsObj l properties) (a # as) = convert e (CsObj l properties) anc'"
      unfolding anc' convert.simps Let_def
      using 7 [OF refl refl]
      by (auto intro!: bindE_cong_l mapE_cong_l foldE_cong_l split: option.splits)
  qed
next
  case (8 e l objects a as)
  show ?case
  proof (intro impI allI)
    fix anc' :: "cs_node list" assume "anc' \<noteq> []"
    then obtain b bs where anc': "anc' = b # bs" by (cases anc') auto
    show "convert e (CsArr l objects) (a # as) = convert e (CsArr l objects) anc'"
      unfolding anc' convert.simps Let_def
      using 8 [OF refl refl]
      by (auto intro!: bindE_cong_l mapE_cong_l foldE_cong_l split: option.splits)
  qed
next
  case (9 e l body a as)
  show ?case
  proof (intro impI allI)
    fix anc' :: "cs_node list" assume "anc' \<noteq> []"
    then obtain b bs where anc': "anc' = b # bs" by (cases anc') auto
    show "convert e (CsParens l body) (a # as) = convert e (CsParens l body) anc'"
      unfolding anc' convert.simps Let_def
      using 9 [OF refl refl]
      by (auto split: cs_node.splits list.splits)
  qed
next
  case (10 e l condition body elseBody a as)
  show ?case
  proof (intro impI allI)
    fix anc' :: "cs_node list" assume "anc' \<noteq> []"
    then obtain b bs where anc': "anc' = b # bs" by (cases anc') auto
    show "convert e (CsIf l condition body elseBody) (a # as) = convert e (CsIf l condition body elseBody) anc'"
      unfolding anc' convert.simps Let_def
      using 10 [OF refl refl refl]
      by (auto intro!: bindE_cong_l mapE_cong_l foldE_cong_l split: option.splits)
  qed
next
  case (11 e l bound body params a as)
  show ?case
  proof (intro impI allI)
    fix anc' :: "cs_node list" assume "anc' \<noteq> []"
    then obtain b bs where anc': "anc' = b # bs" by (cases anc') auto
    show "convert e (CsCode l bound body params) (a # as) = convert e (CsCode l bound body params) anc'"
      unfolding anc' convert.simps Let_def
      using 11 [OF refl refl]
      by (auto intro!: bindE_cong_l mapE_cong_l foldE_cong_l split: option.splits)
  qed
next
  case (12 e l name val a as)
  show ?case
  proof (intro impI allI)
    fix anc' :: "cs_node list" assume "anc' \<noteq> []"
    then obtain b bs where anc': "anc' = b # bs" by (cases anc') auto
    show "convert e (CsParam l name val) (a # as) = convert e (CsParam l name val) anc'"
      unfolding anc' convert.simps Let_def
      using 12 [OF refl refl]
      by (auto intro!: bindE_cong_l mapE_cong_l foldE_cong_l split: option.splits)
  qed
next
  case (13 e l expressions a as)
  show ?case
  proof (intro impI allI)
    fix anc' :: "cs_node list" assume "anc' \<noteq> []"
    then obtain b bs where anc': "anc' = b # bs" by (cases anc') auto
    show "convert e (CsBlock l expressions) (a # as) = convert e (CsBlock l expressions) anc'"
      unfolding anc' convert.simps Let_def
      using 13 [OF refl refl]
      by (auto intro!: bindE_cong_l mapE_cong_l foldE_cong_l split: option.splits)
  qed
next
  case (14 e l val a as)
  show ?case
  proof (intro impI allI)
    fix anc' :: "cs_node list" assume "anc' \<noteq> []"
    then obtain b bs where anc': "anc' = b # bs" by (cases anc') auto
    show "convert e (CsBool l val) (a # as) = convert e (CsBool l val) anc'"
      unfolding anc' convert.simps Let_def
      using 14
      by (auto simp: convert.simps)
  qed
next
  case (15 e l a as)
  show ?case
  proof (intro impI allI)
    fix anc' :: "cs_node list" assume "anc' \<noteq> []"
    then obtain b bs where anc': "anc' = b # bs" by (cases anc') auto
    show "convert e (CsNull l) (a # as) = convert e (CsNull l) anc'"
      unfolding anc' convert.simps Let_def
      using 15
      by (auto simp: convert.simps)
  qed
next
  case (16 e l condition body a as)
  show ?case
  proof (intro impI allI)
    fix anc' :: "cs_node list" assume "anc' \<noteq> []"
    then obtain b bs where anc': "anc' = b # bs" by (cases anc') auto
    show "convert e (CsWhile l condition body) (a # as) = convert e (CsWhile l condition body) anc'"
      unfolding anc' convert.simps Let_def
      using 16 [OF refl refl]
      by (auto intro!: bindE_cong_l mapE_cong_l foldE_cong_l split: option.splits)
  qed
next
  case (17 e l variable body parent a as)
  show ?case
  proof (intro impI allI)
    fix anc' :: "cs_node list" assume "anc' \<noteq> []"
    then obtain b bs where anc': "anc' = b # bs" by (cases anc') auto
    let ?n = "CsClass l variable body parent"
    have v: "(case variable of None \<Rightarrow> Inr None | Some v \<Rightarrow> convert e v ((a # as) @ [?n])) =
             (case variable of None \<Rightarrow> Inr None | Some v \<Rightarrow> convert e v ((b # bs) @ [?n]))"
      using 17(1) [OF refl refl] by (simp split: option.split)
    have st: "foldE (classStatement e ?n (a # as)) s exprs =
              foldE (classStatement e ?n (b # bs)) s exprs"
      if "(case variable of None \<Rightarrow> Inr None | Some v \<Rightarrow> convert e v ((a # as) @ [?n])) =
            Inr nameNode"
        and "body = Some (CsBlock bl exprs)" and "length exprs \<noteq> 0"
      for nameNode bl exprs s
      apply (rule foldE_cong_l)
      using 17(2) [OF refl refl that(1,2) refl that(3)] apply blast
      done
    show "convert e ?n (a # as) = convert e ?n anc'"
      unfolding anc' convert.simps Let_def
      apply (rule bindE_cong_l [OF v])
      apply (rule bindE_cong_l)
      subgoal for nameNode
      proof (cases body)
        case None
        then show ?thesis by simp
      next
        case (Some blk)
        assume nn: "(case variable of None \<Rightarrow> Inr None
                     | Some v \<Rightarrow> convert e v ((a # as) @ [?n])) = Inr nameNode"
        show ?thesis
        proof (cases blk)
          case (CsBlock bl exprs)
          show ?thesis
          proof (cases "length exprs = 0")
            case True
            with Some CsBlock show ?thesis by simp
          next
            case False
            from st [OF nn Some [unfolded CsBlock] False] False show ?thesis
              unfolding Some CsBlock by simp
          qed
        qed (simp_all add: Some)
      qed
      apply (rule prod.case_cong [OF refl])
      apply (rule prod.case_cong [OF refl])
      apply (rule bindE_cong_l)
      subgoal premises prems for x xa x1 x2 x1a x2a
      proof (cases parent)
        case None
        then show ?thesis by simp
      next
        case (Some p)
        from 17(3) [OF refl refl prems(1) prems(2) prems(3) [symmetric] prems(4) [symmetric] Some]
        have "convert e p ((a # as) @ [?n]) = convert e p ((b # bs) @ [?n])" by simp
        then show ?thesis unfolding Some by simp
      qed
      apply simp
      done
  qed
next
  case (18 e l subject cases otherwise a as)
  show ?case
  proof (intro impI allI)
    fix anc' :: "cs_node list" assume "anc' \<noteq> []"
    then obtain b bs where anc': "anc' = b # bs" by (cases anc') auto
    show "convert e (CsSwitch l subject cases otherwise) (a # as) = convert e (CsSwitch l subject cases otherwise) anc'"
      unfolding anc' convert.simps Let_def
      using 18 [OF refl refl]
      apply -
      apply (rule bindE_cong_l)
       apply (simp split: option.split)
      apply (rule bindE_cong_l)
       apply (rule mapE_cong_l)
       apply blast
      apply (rule bindE_cong_l)
       apply (auto split: option.splits)[1]
      apply simp
      done
  qed
next
  case (19 e l name a as)
  show ?case
  proof (intro impI allI)
    fix anc' :: "cs_node list" assume "anc' \<noteq> []"
    then obtain b bs where anc': "anc' = b # bs" by (cases anc') auto
    show "convert e (CsAccess l name) (a # as) = convert e (CsAccess l name) anc'"
      unfolding anc' convert.simps Let_def
      using 19
      by (auto simp: convert.simps)
  qed
next
  case (20 e l index a as)
  show ?case
  proof (intro impI allI)
    fix anc' :: "cs_node list" assume "anc' \<noteq> []"
    then obtain b bs where anc': "anc' = b # bs" by (cases anc') auto
    show "convert e (CsIndex l index) (a # as) = convert e (CsIndex l index) anc'"
      unfolding anc' convert.simps Let_def
      using 20
      by (auto simp: convert.simps)
  qed
next
  case (21 e l name a as)
  show ?case
  proof (intro impI allI)
    fix anc' :: "cs_node list" assume "anc' \<noteq> []"
    then obtain b bs where anc': "anc' = b # bs" by (cases anc') auto
    show "convert e (CsOther l name) (a # as) = convert e (CsOther l name) anc'"
      unfolding anc' convert.simps Let_def
      using 21
      by (auto simp: convert.simps)
  qed
next
  case (22 e op ancestors)
  show ?case
  proof (intro allI)
    fix anc' :: "cs_node list"
    have one: "convert e first (ancestors @ [op]) = convert e first (anc' @ [op])"
      if "op = CsOp l operator first second" for l operator first second
    proof (cases second)
      case None
      from 22(1) [OF that None refl] show ?thesis by simp
    next
      case (Some sec)
      from 22(2) [OF that Some refl] show ?thesis by simp
    qed
    have two: "convert e sec (ancestors @ [op]) = convert e sec (anc' @ [op])"
      if "op = CsOp l operator first (Some sec)" "convert e first (ancestors @ [op]) = Inr x"
      for l operator first sec x
      using 22(3) [OF that(1) refl refl that(2)] by simp
    show "convertOperator e op ancestors = convertOperator e op anc'"
    proof (cases op)
      case (CsOp l operator first second)
      show ?thesis
      proof (cases second)
        case None
        from one [OF CsOp] show ?thesis
          unfolding CsOp None by (simp add: convertOperator.simps Let_def)
      next
        case (Some sec)
        have "bindE (convert e first (ancestors @ [op])) (\<lambda>left.
                bindE (convert e sec (ancestors @ [op])) (F left)) =
              bindE (convert e first (anc' @ [op])) (\<lambda>left.
                bindE (convert e sec (anc' @ [op])) (F left))"
          for F :: "node option \<Rightarrow> node option \<Rightarrow> error + node option"
          apply (rule bindE_cong_l [OF one [OF CsOp]])
          apply (rule bindE_cong_l)
           apply (erule two [OF CsOp [unfolded Some]])
          apply (rule refl)
          done
        then show ?thesis
          unfolding CsOp Some by (simp add: convertOperator.simps Let_def)
      qed
    qed (simp_all add: convertOperator.simps)
  qed
next
  case (23 e node ancestors expression pr loc)
  show ?case
  proof (intro allI)
    fix node' :: cs_node and anc' :: "cs_node list"
    show "accessOpForProperty e node ancestors expression pr loc =
          accessOpForProperty e node' anc' expression pr loc"
      unfolding accessOpForProperty.simps Let_def
      using 23
      by (auto intro!: bindE_cong_l mapE_cong_l foldE_cong_l split: option.split cs_node.split list.split)
  qed
next
  case (24 e node ancestors conds body)
  show ?case
  proof (intro allI)
    fix node' :: cs_node and anc' :: "cs_node list"
    show "convertCase e node ancestors (CsCase conds body) =
          convertCase e node' anc' (CsCase conds body)"
      unfolding convertCase.simps Let_def
      using 24 [OF refl]
      by (auto intro!: bindE_cong_l mapE_cong_l foldE_cong_l split: option.split cs_node.split list.split)
  qed
next
  case (25 e node ancestors statements ctor boundMembers expr)
  show ?case
  proof (intro allI)
    fix node' :: cs_node and anc' :: "cs_node list"
    have c: "convert e expr (ancestors @ [node]) = convert e expr (anc' @ [node'])"
      using 25(1) by simp
    have p: "foldE (classProperty e node ancestors) s ps = foldE (classProperty e node' anc') s ps"
      if "expr = CsValue el (CsObj ol ps) eprops" for el ol ps eprops s
      apply (rule foldE_cong_l)
      using 25(2) [OF refl that refl] apply blast
      done
    show "classStatement e node ancestors (statements, ctor, boundMembers) expr =
          classStatement e node' anc' (statements, ctor, boundMembers) expr"
    proof (cases expr)
      case (CsValue el b eprops)
      show ?thesis
      proof (cases b)
        case (CsObj ol ps)
        from p [OF CsValue [unfolded CsObj]] show ?thesis
          unfolding CsValue CsObj by (simp add: classStatement.simps Let_def)
      qed (insert c, simp_all add: classStatement.simps Let_def CsValue)
    qed (insert c, simp_all add: classStatement.simps Let_def)
  qed
next
  case (26 e node ancestors statements ctor boundMembers property)
  show ?case
  proof (intro allI)
    fix node' :: cs_node and anc' :: "cs_node list"
    show "classProperty e node ancestors (statements, ctor, boundMembers) property =
          classProperty e node' anc' (statements, ctor, boundMembers) property"
      unfolding classProperty.simps Let_def
      using 26
      by (auto intro!: bindE_cong_l mapE_cong_l foldE_cong_l split: option.split cs_node.split list.split)
  qed
qed

lemma convert_ancestors:
  "anc \<noteq> [] \<Longrightarrow> anc' \<noteq> [] \<Longrightarrow> convert e node anc = convert e node anc'"
  using ancestors_irrelevant(1) by blast

text \<open>
  C10. Converting a \<open>Parens\<close> whose body has a first expression is converting that
  expression as its child; the result is the one for the \<open>Parens\<close> holding that expression
  alone, so the remaining expressions are never converted and raise nothing.
\<close>

theorem convert_Parens_first:
  "convert e (CsParens l (CsBlock bl (x # rest))) (a # as) =
     convert e x (a # as @ [CsParens l (CsBlock bl (x # rest))]) \<and>
   convert e (CsParens l (CsBlock bl (x # rest))) (a # as) =
     convert e (CsParens l (CsBlock bl [x])) (a # as)"
proof
  show first: "convert e (CsParens l (CsBlock bl (x # rest))) (a # as) =
      convert e x (a # as @ [CsParens l (CsBlock bl (x # rest))])"
    by (simp add: convert.simps)
  have "convert e (CsParens l (CsBlock bl [x])) (a # as) =
      convert e x (a # as @ [CsParens l (CsBlock bl [x])])"
    by (simp add: convert.simps)
  also have "\<dots> = convert e x (a # as @ [CsParens l (CsBlock bl (x # rest))])"
    by (rule convert_ancestors) simp_all
  finally show "convert e (CsParens l (CsBlock bl (x # rest))) (a # as) =
      convert e (CsParens l (CsBlock bl [x])) (a # as)"
    using first by simp
qed

text \<open>
Unfolding the converter on a tree that is given in full.
\<close>

lemmas eval_simps =
  convert.simps convertOperator.simps accessOpForProperty.simps convertCase.simps
  classStatement.simps classProperty.simps
  bindE_def returnNode_def makeNode_eval makeNode_None loc_of_def locationObject_def
  singleLine_simps span_def
  leaf_def slice_within looksNumeric_def is_digit_def Let_def

lemma returnNode_Inr: "returnNode m = Inr r \<Longrightarrow> \<exists>n. m = Inr n \<and> r = Some n"
  by (auto simp: returnNode_def bindE_def split: sum.splits)

lemma bindE_Inr: "bindE m f = Inr r \<Longrightarrow> \<exists>x. m = Inr x \<and> f x = Inr r"
  by (auto simp: bindE_def split: sum.splits)

text \<open>
  C1. What the code does for an operator outside the recognized set, where the claim
  asks for an error: if the operands convert, the conversion returns a node, and the node
  has no type (\<open>nodeType\<close> is never assigned, neither switch has a default branch).
\<close>

theorem convertOperator_unrecognized:
  "(operator \<notin> set [''+'', ''-'', ''*'', ''/'', ''%''] \<and>
    convert e first (a # as @ [CsOp l operator first (Some sec)]) = Inr x \<and>
    convert e sec (a # as @ [CsOp l operator first (Some sec)]) = Inr y \<longrightarrow>
      (\<exists>n. convert e (CsOp l operator first (Some sec)) (a # as) = Inr (Some n) \<and> ntype n = None)) \<and>
   (operator \<notin> set [''+'', ''-'', ''typeof''] \<and>
    convert e first (a # as @ [CsOp l operator first None]) = Inr x \<longrightarrow>
      (\<exists>n. convert e (CsOp l operator first None) (a # as) = Inr (Some n) \<and> ntype n = None))"
proof (intro conjI impI)
  assume h: "operator \<notin> set [''+'', ''-'', ''*'', ''/'', ''%''] \<and>
    convert e first (a # as @ [CsOp l operator first (Some sec)]) = Inr x \<and>
    convert e sec (a # as @ [CsOp l operator first (Some sec)]) = Inr y"
  from makeNode_of_nodes(2) [of e None "locationObject e (CsOp l operator first (Some sec))"
      "''left''" x "''right''" y]
  obtain n where "makeNode e None (locationObject e (CsOp l operator first (Some sec)))
      [(''left'', ANode x), (''right'', ANode y)] = Inr n" "ntype n = None" by blast
  with h show "\<exists>n. convert e (CsOp l operator first (Some sec)) (a # as) = Inr (Some n) \<and> ntype n = None"
    by (simp add: convert.simps convertOperator.simps bindE_def returnNode_def)
next
  assume h: "operator \<notin> set [''+'', ''-'', ''typeof''] \<and>
    convert e first (a # as @ [CsOp l operator first None]) = Inr x"
  from makeNode_of_nodes(1) [of e None "locationObject e (CsOp l operator first None)"
      "''expression''" x]
  obtain n where "makeNode e None (locationObject e (CsOp l operator first None))
      [(''expression'', ANode x)] = Inr n" "ntype n = None" by blast
  with h show "\<exists>n. convert e (CsOp l operator first None) (a # as) = Inr (Some n) \<and> ntype n = None"
    by (simp add: convert.simps convertOperator.simps bindE_def returnNode_def)
qed

text \<open>
  The operators of \<open>a < b\<close> and of \<open>!a\<close> convert to nodes without a type.
\<close>

theorem convertOperator_unrecognized_witness:
  "convert (singleLine ''a < b'' ex_less_locs) ex_less [CsBlock (Some 0) [ex_less]] =
     Inr (Some (Node None (Some (Number 1)) (Some (Number 1)) (Some (Number 0, Number 5)) False (Some ''a < b'')
       [(''left'', ANode (Some (leaf ''Identifier'' 0 ''a''))),
        (''right'', ANode (Some (leaf ''Identifier'' 4 ''b'')))])) \<and>
   convert (singleLine ''a < b'' ex_less_locs) ex_not [CsBlock (Some 0) [ex_not]] =
     Inr (Some (Node None (Some (Number 1)) (Some (Number 1)) (Some (Number 0, Number 1)) False (Some ''a'')
       [(''expression'', ANode (Some (leaf ''Identifier'' 0 ''a'')))]))"
proof -
  let ?e = "singleLine ''a < b'' ex_less_locs"
  let ?a = "CsValue (Some 1) (CsLiteral (Some 1) ''a'') []"
  let ?b = "CsValue (Some 2) (CsLiteral (Some 2) ''b'') []"
  have op: "''<'' \<notin> set [''+'', ''-'', ''*'', ''/'', ''%'']" "''!'' \<notin> set [''+'', ''-'', ''typeof'']"
    by simp_all
  have a: "convert ?e ?a (CsBlock (Some 0) [ex_less] # [] @ [CsOp (Some 0) ''<'' ?a (Some ?b)])
      = Inr (Some (leaf ''Identifier'' 0 ''a''))"
    by (simp add: ex_less_locs_def eval_simps)
  have b: "convert ?e ?b (CsBlock (Some 0) [ex_less] # [] @ [CsOp (Some 0) ''<'' ?a (Some ?b)])
      = Inr (Some (leaf ''Identifier'' 4 ''b''))"
    by (simp add: ex_less_locs_def eval_simps)
  have a': "convert ?e ?a (CsBlock (Some 0) [ex_not] # [] @ [CsOp (Some 1) ''!'' ?a None])
      = Inr (Some (leaf ''Identifier'' 0 ''a''))"
    by (simp add: ex_less_locs_def eval_simps)
  from convertOperator_unrecognized [of "''<''" ?e ?a "CsBlock (Some 0) [ex_less]" "[]" "Some 0" ?b
      "Some (leaf ''Identifier'' 0 ''a'')" "Some (leaf ''Identifier'' 4 ''b'')"] op a b
  have 1: "\<exists>n. convert ?e ex_less [CsBlock (Some 0) [ex_less]] = Inr (Some n) \<and> ntype n = None"
    by (simp add: ex_less_def)
  from convertOperator_unrecognized [of "''!''" ?e ?a "CsBlock (Some 0) [ex_not]" "[]" "Some 1" ?b
      "Some (leaf ''Identifier'' 0 ''a'')" "Some (leaf ''Identifier'' 4 ''b'')"] op a'
  have 2: "\<exists>n. convert ?e ex_not [CsBlock (Some 0) [ex_not]] = Inr (Some n) \<and> ntype n = None"
    by (simp add: ex_not_def)
  from 1 2 show ?thesis
    by (simp add: ex_less_def ex_not_def ex_less_locs_def eval_simps)
qed

text \<open>
  An operator node converts to a node built at its own location object.
\<close>

lemma convertOperator_node:
  assumes "convertOperator e (CsOp l operator first second) anc = Inr r"
  shows "\<exists>ty as n.
           makeNode e ty (locationObject e (CsOp l operator first second)) as = Inr n \<and>
           r = Some n"
proof (cases second)
  case None
  with assms show ?thesis
    by (auto simp: convertOperator.simps Let_def dest!: bindE_Inr returnNode_Inr)
next
  case (Some sec)
  with assms show ?thesis
    by (auto simp: convertOperator.simps Let_def dest!: bindE_Inr returnNode_Inr)
qed

text \<open>
  What the code tests is the identity of the two location objects: the condition is
  virtual exactly when its location object is the one of the conditional, or it has none.
\<close>

lemma conditional_condition_virtual:
  assumes "convert e (CsIf l (CsOp cl ''!'' first second) body elseBody) (a # as) = Inr r"
  shows "\<exists>n c. r = Some n \<and> ntype n = Some ''Conditional'' \<and>
           map_of (attrs n) ''condition'' = Some (ANode (Some c)) \<and>
           virtual c = (cl = l \<or> cl = None) \<and>
           (virtual c \<longrightarrow> line c = None \<and> column c = None \<and> nrange c = None \<and> raw c = None)"
proof -
  let ?cond = "if cl = l then CsOp None ''!'' first second else CsOp cl ''!'' first second"
  let ?node = "CsIf l ?cond body elseBody"
  from assms obtain c where c: "convert e ?cond (a # as @ [?node]) = Inr c"
    and rest: "\<exists>consequent alternate.
        returnNode (makeNode e (Some ''Conditional'') (locationObject e ?node)
           [(''condition'', ANode c), (''consequent'', ANode consequent),
            (''alternate'', ANode alternate)]) = Inr r"
    by (auto simp: convert.simps Let_def dest!: bindE_Inr split: if_splits)
  from rest obtain n as' where
    n: "makeNode e (Some ''Conditional'') (locationObject e ?node) as' = Inr n"
    and r: "r = Some n" and as': "map_of as' ''condition'' = Some (ANode c)"
    by (auto dest!: returnNode_Inr)
  from makeNode_type [OF n] have ty: "ntype n = Some ''Conditional''" .
  let ?l' = "if cl = l then None else cl"
  from c have "convertOperator e (CsOp ?l' ''!'' first second) (a # as @ [?node]) = Inr c"
    by (simp add: convert.simps split: if_splits)
  from convertOperator_node [OF this] obtain ty' as'' cn where
    cn: "makeNode e ty' (locationObject e (CsOp ?l' ''!'' first second)) as'' = Inr cn"
    and cc: "c = Some cn"
    by blast
  have "locationObject e (CsOp ?l' ''!'' first second) = None \<longleftrightarrow> (cl = l \<or> cl = None)"
    by (auto simp: locationObject_def)
  with makeNode_virtual_loc [OF cn] have
    "virtual cn = (cl = l \<or> cl = None) \<and>
     (virtual cn \<longrightarrow> line cn = None \<and> column cn = None \<and> nrange cn = None \<and> raw cn = None)"
    by auto
  with r ty as' cc makeNode_attrs [OF n] show ?thesis by auto
qed

text \<open>
  C3. The conditional and the negation both carry a location object, and two location
  objects with the same coordinates are one object: upstream shares the
  object of the conditional with the negation it makes for \<open>unless\<close>, and a negation that
  is written lies inside the text of the conditional. Then the condition of the converted
  conditional is virtual exactly when the coordinates of the negation are those of the
  conditional; a virtual condition has no line, column, range or raw.
\<close>

theorem conditional_negated_condition:
  assumes "convert e (CsIf (Some l) (CsOp (Some cl) ''!'' first second) body elseBody) (a # as)
             = Inr r"
    and "locs e cl = locs e l \<longrightarrow> cl = l"
  shows "\<exists>n c. r = Some n \<and> ntype n = Some ''Conditional'' \<and>
           map_of (attrs n) ''condition'' = Some (ANode (Some c)) \<and>
           virtual c = (locs e cl = locs e l) \<and>
           (virtual c \<longrightarrow> line c = None \<and> column c = None \<and> nrange c = None \<and> raw c = None)"
proof -
  from conditional_condition_virtual [OF assms(1)] obtain n c where
    "r = Some n" "ntype n = Some ''Conditional''"
    "map_of (attrs n) ''condition'' = Some (ANode (Some c))"
    "virtual c = (Some cl = Some l \<or> Some cl = None)"
    "virtual c \<longrightarrow> line c = None \<and> column c = None \<and> nrange c = None \<and> raw c = None"
    by blast
  moreover from assms(2) have "(Some cl = Some l \<or> Some cl = None) = (locs e cl = locs e l)"
    by auto
  ultimately show ?thesis by simp
qed

text \<open>
  The conditional of \<open>unless x then y\<close>, whose negation has the coordinates of the
  conditional, and the conditional of \<open>if !x then y\<close>, whose negation has its own.
\<close>

theorem conditional_negated_condition_witness:
  "(\<exists>n c. convert (singleLine ''unless x then y'' ex_unless_locs) ex_unless
             [CsBlock (Some 0) [ex_unless]] = Inr (Some n) \<and>
          map_of (attrs n) ''condition'' = Some (ANode (Some c)) \<and>
          virtual c \<and> line c = None \<and> column c = None \<and> nrange c = None \<and> raw c = None) \<and>
   ex_ifnot_locs 1 \<noteq> ex_ifnot_locs 0 \<and>
   (\<exists>n c. convert (singleLine ''if !x then y'' ex_ifnot_locs) ex_ifnot
             [CsBlock (Some 0) [ex_ifnot]] = Inr (Some n) \<and>
          map_of (attrs n) ''condition'' = Some (ANode (Some c)) \<and> \<not> virtual c)"
proof -
  let ?e = "singleLine ''unless x then y'' ex_unless_locs"
  let ?f = "singleLine ''if !x then y'' ex_ifnot_locs"
  have "\<exists>r. convert ?e ex_unless [CsBlock (Some 0) [ex_unless]] = Inr r"
    by (simp add: ex_unless_def ex_unless_locs_def eval_simps)
  then obtain r where r: "convert ?e ex_unless [CsBlock (Some 0) [ex_unless]] = Inr r" ..
  have "\<exists>q. convert ?f ex_ifnot [CsBlock (Some 0) [ex_ifnot]] = Inr q"
    by (simp add: ex_ifnot_def ex_ifnot_locs_def eval_simps)
  then obtain q where q: "convert ?f ex_ifnot [CsBlock (Some 0) [ex_ifnot]] = Inr q" ..
  have d: "ex_ifnot_locs 1 \<noteq> ex_ifnot_locs 0"
    by (simp add: ex_ifnot_locs_def span_def)
  then have d': "locs ?f 1 = locs ?f 0 \<longrightarrow> (1::nat) = 0"
    by (simp add: singleLine_simps)
  from conditional_negated_condition [OF r [unfolded ex_unless_def]] r
  have 1: "\<exists>n c. convert ?e ex_unless [CsBlock (Some 0) [ex_unless]] = Inr (Some n) \<and>
          map_of (attrs n) ''condition'' = Some (ANode (Some c)) \<and>
          virtual c \<and> line c = None \<and> column c = None \<and> nrange c = None \<and> raw c = None"
    by auto
  from conditional_negated_condition [OF q [unfolded ex_ifnot_def] d'] q d
  have 2: "\<exists>n c. convert ?f ex_ifnot [CsBlock (Some 0) [ex_ifnot]] = Inr (Some n) \<and>
          map_of (attrs n) ''condition'' = Some (ANode (Some c)) \<and> \<not> virtual c"
    by (auto simp: singleLine_simps)
  from 1 d 2 show ?thesis by blast
qed

text \<open>
  The span of a case and the merge of all its spans.
\<close>

lemma merge_inside_hull:
  "\<forall>lc \<in> set lcs. covers (mergeLocations l0 lb) lc \<Longrightarrow>
   mergeLocations (foldl mergeLocations l0 lcs) lb = mergeLocations l0 lb"
proof (induction lcs arbitrary: l0)
  case Nil
  then show ?case by simp
next
  case (Cons lc lcs)
  have eq: "mergeLocations (mergeLocations l0 lc) lb = mergeLocations l0 lb"
  proof -
    have "mergeLocations (mergeLocations l0 lc) lb = mergeLocations l0 (mergeLocations lb lc)"
      by (simp add: mergeLocations_assoc mergeLocations_swap [of lc lb])
    also have "\<dots> = mergeLocations (mergeLocations l0 lb) lc"
      by (simp add: mergeLocations_assoc)
    also from Cons.prems have "\<dots> = mergeLocations l0 lb"
      by (simp add: mergeLocations_absorb)
    finally show ?thesis .
  qed
  with Cons.prems have "\<forall>x \<in> set lcs. covers (mergeLocations (mergeLocations l0 lc) lb) x"
    by simp
  from Cons.IH [OF this] eq show ?case by simp
qed

lemma leftFoldMerge_inside_hull:
  assumes "\<forall>lc \<in> set lcs. covers (mergeLocations l0 lb) lc"
  shows "leftFoldMerge (map Some (l0 # lcs @ [lb])) = Inr (Some (mergeLocations l0 lb))"
proof -
  have "leftFoldMerge (map Some (l0 # lcs @ [lb])) =
      Inr (Some (foldl mergeLocations l0 (lcs @ [lb])))"
    using leftFoldMerge_Some [of l0 "lcs @ [lb]"] by simp
  with merge_inside_hull [OF assms] show ?thesis by simp
qed

lemma between_inside_hull:
  assumes "pos_le (start_pos l0) (start_pos lc)" and "pos_le (end_pos lc) (end_pos lb)"
  shows "covers (mergeLocations l0 lb) lc"
  using assms
  by (cases l0; cases lb; cases lc)
     (auto simp: mergeLocations_def covers_def pos_le_def start_pos_def end_pos_def Let_def)

lemma in_source_order_inside_hull:
  assumes "in_source_order (l0 # lcs @ [lb])"
  shows "\<forall>lc \<in> set lcs. covers (mergeLocations l0 lb) lc"
proof
  fix lc assume lc: "lc \<in> set lcs"
  with assms have "pos_le (start_pos l0) (start_pos lc)" "pos_le (end_pos lc) (end_pos lb)"
    by (auto simp: in_source_order_def sorted_wrt_append)
  then show "covers (mergeLocations l0 lb) lc" by (rule between_inside_hull)
qed

lemma locationContainingNodes_pair:
  "locationContainingNodes e [n0, n1] = Inr m \<Longrightarrow>
   \<exists>l0 l1. loc_of e n0 = Some l0 \<and> loc_of e n1 = Some l1 \<and> m = Some (mergeLocations l0 l1)"
  by (cases "loc_of e n0"; cases "loc_of e n1") (auto simp: bindE_def)

text \<open>
  What the code computes: the merge of the span of the first condition with the span of
  the body, expanded to the left through \<open>when \<close>.
\<close>

lemma convertCase_span:
  assumes "convertCase e node ancestors (CsCase conds body) = Inr r"
  shows "\<exists>c0 rest l0 lb loc n.
           (case conds of CsOne c \<Rightarrow> [c] | CsMany cs \<Rightarrow> cs) = c0 # rest \<and>
           loc_of e c0 = Some l0 \<and> loc_of e body = Some lb \<and>
           expandLocationLeftThrough e (Some (mergeLocations l0 lb)) ''when '' = Inr loc \<and>
           r = Some n \<and> (\<exists>as. makeNode e (Some ''SwitchCase'') (Some (Located loc)) as = Inr n) \<and>
           line n = Some (Number (first_line loc + 1)) \<and>
           column n = Some (Number (first_column loc + 1))"
proof -
  let ?conditions = "case conds of CsOne c \<Rightarrow> [c] | CsMany cs \<Rightarrow> cs"
  from assms obtain loc where
    loc: "(case ?conditions of
             [] \<Rightarrow> Inl TypeError
           | c0 # _ \<Rightarrow>
               bindE (locationContainingNodes e [c0, body]) (\<lambda>m.
               expandLocationLeftThrough e m ''when '')) = Inr loc"
    and made: "\<exists>as. returnNode (makeNode e (Some ''SwitchCase'') (Some (Located loc)) as) = Inr r"
    by (auto simp: convertCase.simps Let_def dest!: bindE_Inr)
  from loc obtain c0 rest where shape: "?conditions = c0 # rest"
    by (cases ?conditions) auto
  with loc have "bindE (locationContainingNodes e [c0, body]) (\<lambda>m.
      expandLocationLeftThrough e m ''when '') = Inr loc" by simp
  from bindE_Inr [OF this] obtain m where m: "locationContainingNodes e [c0, body] = Inr m"
    and ex: "expandLocationLeftThrough e m ''when '' = Inr loc"
    by blast
  from locationContainingNodes_pair [OF m] obtain l0 lb where
    l0: "loc_of e c0 = Some l0" and lb: "loc_of e body = Some lb"
    and mm: "m = Some (mergeLocations l0 lb)"
    by blast
  from made obtain as n where n: "makeNode e (Some ''SwitchCase'') (Some (Located loc)) as = Inr n"
    and r: "r = Some n"
    by (auto dest!: returnNode_Inr)
  from makeNode_Located [OF n] have "line n = Some (Number (first_line loc + 1))"
    "column n = Some (Number (first_column loc + 1))" by auto
  with shape l0 lb ex mm n r show ?thesis
    by blast
qed

text \<open>
  C2. A case whose conditions and body all carry a span, the spans being in source order
  (the conditions follow one another in the text and the body follows them): when the
  case converts, the merge of the spans of all its conditions and of its body is a span,
  its expansion to the left through \<open>when \<close> succeeds, and the \<open>SwitchCase\<close> node is built
  at the expanded span; its line and column are the start of that span.
\<close>

theorem switchCase_span:
  assumes "convertCase e node ancestors (CsCase conds body) = Inr r"
    and "map (loc_of e) ((case conds of CsOne c \<Rightarrow> [c] | CsMany cs \<Rightarrow> cs) @ [body]) = map Some ls"
    and "in_source_order ls"
  shows "\<exists>n m loc.
           r = Some n \<and>
           leftFoldMerge (map (loc_of e) ((case conds of CsOne c \<Rightarrow> [c] | CsMany cs \<Rightarrow> cs) @ [body]))
             = Inr (Some m) \<and>
           expandLocationLeftThrough e (Some m) ''when '' = Inr loc \<and>
           (\<exists>as. makeNode e (Some ''SwitchCase'') (Some (Located loc)) as = Inr n) \<and>
           line n = Some (Number (first_line loc + 1)) \<and>
           column n = Some (Number (first_column loc + 1))"
proof -
  let ?conditions = "case conds of CsOne c \<Rightarrow> [c] | CsMany cs \<Rightarrow> cs"
  from convertCase_span [OF assms(1)] obtain c0 rest l0 lb loc n where
    shape: "?conditions = c0 # rest"
    and l0: "loc_of e c0 = Some l0" and lb: "loc_of e body = Some lb"
    and ex: "expandLocationLeftThrough e (Some (mergeLocations l0 lb)) ''when '' = Inr loc"
    and r: "r = Some n"
    and n: "\<exists>as. makeNode e (Some ''SwitchCase'') (Some (Located loc)) as = Inr n"
    and lc: "line n = Some (Number (first_line loc + 1))"
      "column n = Some (Number (first_column loc + 1))"
    by blast
  define lcs where "lcs = map (\<lambda>c. the (loc_of e c)) rest"
  from assms(2) shape have eq: "map (loc_of e) (c0 # rest @ [body]) = map Some ls" by simp
  then have "map the (map (loc_of e) (c0 # rest @ [body])) = map the (map Some ls)"
    by (rule arg_cong)
  then have ls: "ls = l0 # lcs @ [lb]"
    by (simp add: l0 lb lcs_def comp_def)
  from assms(3) have "\<forall>lc \<in> set lcs. covers (mergeLocations l0 lb) lc"
    unfolding ls by (rule in_source_order_inside_hull)
  then have "leftFoldMerge (map Some (l0 # lcs @ [lb])) = Inr (Some (mergeLocations l0 lb))"
    by (rule leftFoldMerge_inside_hull)
  with eq ls shape
  have "leftFoldMerge (map (loc_of e) (?conditions @ [body])) = Inr (Some (mergeLocations l0 lb))"
    by simp
  with r ex n lc show ?thesis by blast
qed

text \<open>
  The case of \<open>when a, x then b\<close>: the spans of \<open>a\<close>, \<open>x\<close> and \<open>b\<close> merge to the span from
  \<open>a\<close> to \<open>b\<close>, and the node starts at the keyword.
\<close>

theorem switchCase_span_witness:
  "in_source_order [span 0 5 0 5, span 0 8 0 8, span 0 15 0 15] \<and>
   (\<exists>n. convertCase (singleLine ''when a, x then b'' ex_when_locs) ex_switch
          [CsBlock (Some 0) [ex_switch]] ex_when = Inr (Some n) \<and>
        line n = Some (Number 1) \<and> column n = Some (Number 1)) \<and>
   leftFoldMerge (map (loc_of (singleLine ''when a, x then b'' ex_when_locs))
      [CsValue (Some 1) (CsLiteral (Some 1) ''a'') [],
       CsValue (Some 2) (CsLiteral (Some 2) ''x'') [],
       CsValue (Some 3) (CsLiteral (Some 3) ''b'') []]) = Inr (Some (span 0 5 0 15)) \<and>
   expandLocationLeftThrough (singleLine ''when a, x then b'' ex_when_locs)
      (Some (span 0 5 0 15)) ''when '' = Inr (span 0 0 0 15)"
proof -
  let ?e = "singleLine ''when a, x then b'' ex_when_locs"
  let ?a = "CsValue (Some 1) (CsLiteral (Some 1) ''a'') []"
  let ?x = "CsValue (Some 2) (CsLiteral (Some 2) ''x'') []"
  let ?b = "CsValue (Some 3) (CsLiteral (Some 3) ''b'') []"
  let ?ls = "[span 0 5 0 5, span 0 8 0 8, span 0 15 0 15]"
  have "\<exists>r. convertCase ?e ex_switch [CsBlock (Some 0) [ex_switch]] ex_when = Inr r"
    by (simp add: ex_when_def ex_when_locs_def eval_simps mergeLocations_def
        lastIndexOf_def occurs_at_def upt_rec)
  then obtain r where r: "convertCase ?e ex_switch [CsBlock (Some 0) [ex_switch]] ex_when = Inr r" ..
  have locs: "map (loc_of ?e) ((case CsMany [?a, ?x] of CsOne c \<Rightarrow> [c] | CsMany cs \<Rightarrow> cs) @ [?b])
      = map Some ?ls"
    by (simp add: loc_of_def singleLine_simps ex_when_locs_def)
  have order: "in_source_order ?ls"
    by (simp add: in_source_order_def pos_le_def start_pos_def end_pos_def span_def)
  have x: "expandLocationLeftThrough ?e (Some (span 0 5 0 15)) ''when '' = Inr (span 0 0 0 15)"
    by (simp add: singleLine_simps span_def lastIndexOf_def occurs_at_def upt_rec)
  from switchCase_span [OF r [unfolded ex_when_def] locs order] obtain n m loc where
    rn: "r = Some n"
    and fold: "leftFoldMerge (map (loc_of ?e)
        ((case CsMany [?a, ?x] of CsOne c \<Rightarrow> [c] | CsMany cs \<Rightarrow> cs) @ [?b])) = Inr (Some m)"
    and ex: "expandLocationLeftThrough ?e (Some m) ''when '' = Inr loc"
    and ln: "line n = Some (Number (first_line loc + 1))"
    and cn: "column n = Some (Number (first_column loc + 1))"
    by blast
  have "leftFoldMerge (map (loc_of ?e) [?a, ?x, ?b]) = Inr (Some (span 0 5 0 15))"
    by (simp add: loc_of_def singleLine_simps ex_when_locs_def bindE_def mergeLocations_def
        span_def)
  with fold have m: "m = span 0 5 0 15" and E: "leftFoldMerge (map (loc_of ?e) [?a, ?x, ?b])
      = Inr (Some (span 0 5 0 15))"
    by simp_all
  from ex x have loc: "loc = span 0 0 0 15" by (simp add: m)
  have A: "convertCase ?e ex_switch [CsBlock (Some 0) [ex_switch]] ex_when = Inr (Some n)"
    using r rn by simp
  have C: "line n = Some (Number 1)" and D: "column n = Some (Number 1)"
    using ln cn by (simp_all add: loc span_def)
  from order A C D E x show ?thesis by blast
qed

end
